theory Spec2Isabelle
  imports Main "HOL-Library.AList" "HOL-Library.Multiset"
begin

section \<open>Shared string helpers\<close>

text \<open>
  Strings are lists of 8-bit characters. For the Python code a character stands for a code
  point below 256; for the TypeScript client a string is its UTF-8 byte sequence.
\<close>

definition digit_char :: "nat \<Rightarrow> char" where
  "digit_char d = char_of (48 + d)"

fun nat_digits :: "nat \<Rightarrow> string" where
  "nat_digits n = (if n < 10 then [digit_char n] else nat_digits (n div 10) @ [digit_char (n mod 10)])"

declare nat_digits.simps [simp del]

definition int_to_string :: "int \<Rightarrow> string" where
  "int_to_string i = (if i < 0 then CHR ''-'' # nat_digits (nat (- i)) else nat_digits (nat i))"

section \<open>The web client: \<open>ApiClient.search\<close> (webapp/src/lib/api.ts)\<close>

text \<open>
  The parameter object of \<open>search\<close>: \<open>query\<close> is required, the five other members are
  optional (\<open>None\<close> is \<open>undefined\<close>). Numbers are modelled as integers; their
  \<open>toString()\<close> is the decimal numeral, which is what JavaScript prints for every integer of
  magnitude up to \<open>2^53\<close>. Beyond that a JavaScript number prints rounded digits, and from
  \<open>10^21\<close> on an exponent; which parameters are sent does not depend on it.
\<close>

record search_args =
  query :: string
  n_results :: "int option"
  phase_filter :: "string option"
  topic_filter :: "string option"
  year_min :: "int option"
  year_max :: "int option"

text \<open>JavaScript truthiness of an optional number and of an optional string.\<close>

definition truthy_num :: "int option \<Rightarrow> bool" where
  "truthy_num v = (case v of None \<Rightarrow> False | Some n \<Rightarrow> n \<noteq> 0)"

definition truthy_str :: "string option \<Rightarrow> bool" where
  "truthy_str v = (case v of None \<Rightarrow> False | Some s \<Rightarrow> s \<noteq> [])"

text \<open>
  \<open>URLSearchParams\<close> is an ordered list of name/value pairs. \<open>set\<close> overwrites the first
  pair of that name and removes the others, or appends a new pair.
\<close>

type_synonym url_search_params = "(string \<times> string) list"

fun usp_set :: "string \<Rightarrow> string \<Rightarrow> url_search_params \<Rightarrow> url_search_params" where
  "usp_set k v [] = [(k, v)]"
| "usp_set k v ((k', v') # ps) =
     (if k' = k then (k, v) # filter (\<lambda>p. fst p \<noteq> k) ps else (k', v') # usp_set k v ps)"

definition usp_get :: "url_search_params \<Rightarrow> string \<Rightarrow> string option" where
  "usp_get ps k = map_of ps k"

definition set_if_num :: "string \<Rightarrow> int option \<Rightarrow> url_search_params \<Rightarrow> url_search_params" where
  "set_if_num k v ps = (if truthy_num v then usp_set k (int_to_string (the v)) ps else ps)"

definition set_if_str :: "string \<Rightarrow> string option \<Rightarrow> url_search_params \<Rightarrow> url_search_params" where
  "set_if_str k v ps = (if truthy_str v then usp_set k (the v) ps else ps)"

text \<open>The body of \<open>search\<close> up to the call of \<open>fetch\<close>: the parameters it builds.\<close>

definition search_params :: "search_args \<Rightarrow> url_search_params" where
  "search_params p =
     set_if_num ''year_max'' (year_max p)
      (set_if_num ''year_min'' (year_min p)
       (set_if_str ''topic_filter'' (topic_filter p)
        (set_if_str ''phase_filter'' (phase_filter p)
         (set_if_num ''n_results'' (n_results p)
          (usp_set ''query'' (query p) [])))))"

text \<open>
  \<open>URLSearchParams.toString()\<close>: the application/x-www-form-urlencoded serialisation.
  Letters, digits and \<open>* - . _\<close> stay, a space becomes \<open>+\<close>, every other byte is
  percent-encoded with upper-case hexadecimal digits.
\<close>

definition hex_digit :: "nat \<Rightarrow> char" where
  "hex_digit d = (if d < 10 then char_of (48 + d) else char_of (55 + d))"

definition form_unreserved :: "char \<Rightarrow> bool" where
  "form_unreserved c = (let n = of_char c :: nat in
     (48 \<le> n \<and> n \<le> 57) \<or> (65 \<le> n \<and> n \<le> 90) \<or> (97 \<le> n \<and> n \<le> 122) \<or>
     n = 42 \<or> n = 45 \<or> n = 46 \<or> n = 95)"

definition form_encode_char :: "char \<Rightarrow> string" where
  "form_encode_char c =
     (if form_unreserved c then [c]
      else if c = CHR '' '' then ''+''
      else [CHR ''%'', hex_digit (of_char c div 16), hex_digit (of_char c mod 16)])"

definition form_encode :: "string \<Rightarrow> string" where
  "form_encode s = concat (map form_encode_char s)"

fun join_with :: "string \<Rightarrow> string list \<Rightarrow> string" where
  "join_with sep [] = []"
| "join_with sep [x] = x"
| "join_with sep (x # y # ys) = x @ sep @ join_with sep (y # ys)"

definition usp_toString :: "url_search_params \<Rightarrow> string" where
  "usp_toString ps = join_with ''&'' (map (\<lambda>(k, v). form_encode k @ ''='' @ form_encode v) ps)"

text \<open>The endpoint handed to \<open>fetch\<close>.\<close>

definition search_endpoint :: "search_args \<Rightarrow> string" where
  "search_endpoint p = ''/api/search?'' @ usp_toString (search_params p)"

section \<open>Python values and string methods\<close>

text \<open>
  The metadata dictionaries hold values of any type. The model covers \<open>None\<close>, booleans,
  integers, floats, strings and lists of such values.

  A finite float is its value \<open>mantissa * 2 ^ exponent\<close> together with the text that
  \<open>str\<close> prints for it (the shortest decimal that reads back as the same float, which the
  model carries and does not compute). The other floats are the two infinities and NaN.
\<close>

datatype pyfloat = FFinite (mantissa: int) (exponent: int) (printed: string) | FInf | FNegInf | FNan

datatype pyval =
  PNone | PBool bool | PInt int | PFloat pyfloat | PStr string | PList "pyval list"

datatype py_error = TypeError | ValueError | OverflowError | AttributeError | ExternalError

text \<open>Truth value testing, as \<open>if x:\<close> does it.\<close>

fun truthy :: "pyval \<Rightarrow> bool" where
  "truthy PNone = False"
| "truthy (PBool b) = b"
| "truthy (PInt i) = (i \<noteq> 0)"
| "truthy (PFloat f) = (case f of FFinite m e p \<Rightarrow> m \<noteq> 0 | _ \<Rightarrow> True)"
| "truthy (PStr s) = (s \<noteq> [])"
| "truthy (PList xs) = (xs \<noteq> [])"

text \<open>
  \<open>str.isspace\<close> on one character, for code points below 256: the ASCII whitespace
  \<open>\t \n \v \f \r\<close> and space, the separators \<open>0x1c..0x1f\<close>, NEL \<open>0x85\<close> and the
  no-break space \<open>0xa0\<close>.
\<close>

definition py_isspace :: "char \<Rightarrow> bool" where
  "py_isspace c = (let n = of_char c :: nat in
     (9 \<le> n \<and> n \<le> 13) \<or> (28 \<le> n \<and> n \<le> 32) \<or> n = 133 \<or> n = 160)"

definition py_strip :: "string \<Rightarrow> string" where
  "py_strip s = rev (dropWhile py_isspace (rev (dropWhile py_isspace s)))"

text \<open>
  \<open>str.split()\<close> without arguments: the maximal runs of non-whitespace characters. The
  first argument is the word read so far.
\<close>

fun split_acc :: "string \<Rightarrow> string \<Rightarrow> string list" where
  "split_acc w [] = (if w = [] then [] else [w])"
| "split_acc w (c # cs) =
     (if py_isspace c then (if w = [] then split_acc [] cs else w # split_acc [] cs)
      else split_acc (w @ [c]) cs)"

definition py_split :: "string \<Rightarrow> string list" where
  "py_split s = split_acc [] s"

text \<open>\<open>str.lower\<close> for code points below 256: \<open>A..Z\<close> and \<open>0xc0..0xde\<close> except \<open>0xd7\<close>.\<close>

definition lower_char :: "char \<Rightarrow> char" where
  "lower_char c = (let n = of_char c :: nat in
     if (65 \<le> n \<and> n \<le> 90) \<or> (192 \<le> n \<and> n \<le> 222 \<and> n \<noteq> 215) then char_of (n + 32) else c)"

definition py_lower :: "string \<Rightarrow> string" where
  "py_lower s = map lower_char s"

text \<open>
  \<open>s.replace(old, new)\<close>: every non-overlapping occurrence of \<open>old\<close>, found from the
  left, is replaced. With an empty \<open>old\<close> Python puts \<open>new\<close> before every character and
  at the end.
\<close>

function replace_from :: "string \<Rightarrow> string \<Rightarrow> string \<Rightarrow> string" where
  "replace_from old new s =
     (if old = [] \<or> s = [] then s
      else if take (length old) s = old then new @ replace_from old new (drop (length old) s)
      else hd s # replace_from old new (tl s))"
  by pat_completeness auto
termination
  by (relation "measure (\<lambda>(old, new, s). length s)") auto

declare replace_from.simps [simp del]

definition py_replace :: "string \<Rightarrow> string \<Rightarrow> string \<Rightarrow> string" where
  "py_replace old new s =
     (if old = [] then new @ concat (map (\<lambda>c. c # new) s) else replace_from old new s)"

fun occurs :: "string \<Rightarrow> string \<Rightarrow> bool" where
  "occurs old [] = (old = [])"
| "occurs old (c # cs) = (take (length old) (c # cs) = old \<or> occurs old cs)"

text \<open>
  \<open>int(s)\<close> for a string. The whitespace \<open>int\<close> drops around the number is narrower than
  that of \<open>str.strip\<close>: the ASCII whitespace \<open>\t \n \v \f \r\<close> and space, and the two
  code points \<open>0x85\<close> and \<open>0xa0\<close>, which \<open>int\<close> turns into spaces first; the separators
  \<open>0x1c..0x1f\<close> are not dropped. One sign is allowed, and the digits may be grouped by
  single underscores. A number of more than 4300 digits is refused (the interpreter's
  default limit for the conversion of a decimal string). Anything refused is a
  \<open>ValueError\<close>.
\<close>

definition int_isspace :: "char \<Rightarrow> bool" where
  "int_isspace c = (let n = of_char c :: nat in
     (9 \<le> n \<and> n \<le> 13) \<or> n = 32 \<or> n = 133 \<or> n = 160)"

definition int_strip :: "string \<Rightarrow> string" where
  "int_strip s = rev (dropWhile int_isspace (rev (dropWhile int_isspace s)))"

definition is_digit :: "char \<Rightarrow> bool" where
  "is_digit c = (let n = of_char c :: nat in 48 \<le> n \<and> n \<le> 57)"

fun valid_digits :: "string \<Rightarrow> bool" where
  "valid_digits [] = False"
| "valid_digits [c] = is_digit c"
| "valid_digits (c # d # cs) =
     (is_digit c \<and> (if d = CHR ''_'' then valid_digits cs else valid_digits (d # cs)))"

definition digits_value :: "string \<Rightarrow> int" where
  "digits_value s = foldl (\<lambda>a c. 10 * a + (int (of_char c) - 48)) 0 (filter is_digit s)"

definition int_max_str_digits :: nat where
  "int_max_str_digits = 4300"

definition int_of_str :: "string \<Rightarrow> py_error + int" where
  "int_of_str s =
     (let t = int_strip s;
          neg = (t \<noteq> [] \<and> hd t = CHR ''-'');
          body = (if t \<noteq> [] \<and> (hd t = CHR ''-'' \<or> hd t = CHR ''+'') then tl t else t)
      in if valid_digits body \<and> length (filter is_digit body) \<le> int_max_str_digits
         then Inr (if neg then - digits_value body else digits_value body)
         else Inl ValueError)"

text \<open>
  \<open>int(x)\<close> for a float cuts the value towards zero; an infinity is an \<open>OverflowError\<close>
  and NaN a \<open>ValueError\<close>.
\<close>

definition float_trunc :: "int \<Rightarrow> int \<Rightarrow> int" where
  "float_trunc m e =
     (if 0 \<le> e then m * 2 ^ nat e
      else if 0 \<le> m then m div 2 ^ nat (- e)
      else - ((- m) div 2 ^ nat (- e)))"

definition int_of_float :: "pyfloat \<Rightarrow> py_error + int" where
  "int_of_float f =
     (case f of
        FFinite m e p \<Rightarrow> Inr (float_trunc m e)
      | FInf \<Rightarrow> Inl OverflowError
      | FNegInf \<Rightarrow> Inl OverflowError
      | FNan \<Rightarrow> Inl ValueError)"

text \<open>\<open>int(x)\<close>: a boolean is 0 or 1, \<open>None\<close> and lists are a \<open>TypeError\<close>.\<close>

fun py_int :: "pyval \<Rightarrow> py_error + int" where
  "py_int PNone = Inl TypeError"
| "py_int (PBool b) = Inr (if b then 1 else 0)"
| "py_int (PInt i) = Inr i"
| "py_int (PFloat f) = int_of_float f"
| "py_int (PStr s) = int_of_str s"
| "py_int (PList xs) = Inl TypeError"

text \<open>\<open>str\<close> of a float.\<close>

definition float_str :: "pyfloat \<Rightarrow> string" where
  "float_str f =
     (case f of
        FFinite m e p \<Rightarrow> p
      | FInf \<Rightarrow> ''inf''
      | FNegInf \<Rightarrow> ''-inf''
      | FNan \<Rightarrow> ''nan'')"

text \<open>
  \<open>repr\<close> of a string: single quotes unless the string has a single quote and no double
  quote; backslash, the quote, tab, newline and carriage return are escaped, and every
  other non-printable code point is written \<open>\xhh\<close>.

  The interpreter refuses to print an integer of more than 4300 digits (a \<open>ValueError\<close>)
  and a list nested beyond its recursion limit; \<open>py_repr\<close> and \<open>py_str\<close> print both, so
  they describe \<open>repr\<close> and \<open>str\<close> on the other values only.
\<close>

definition lower_hex :: "nat \<Rightarrow> char" where
  "lower_hex d = (if d < 10 then char_of (48 + d) else char_of (87 + d))"

definition py_printable :: "char \<Rightarrow> bool" where
  "py_printable c = (let n = of_char c :: nat in
     (32 \<le> n \<and> n \<le> 126) \<or> (161 \<le> n \<and> n \<noteq> 173))"

definition repr_char :: "char \<Rightarrow> char \<Rightarrow> string" where
  "repr_char q c =
     (if c = q \<or> c = CHR 0x5C then [CHR 0x5C, c]
      else if c = CHR 0x09 then [CHR 0x5C, CHR ''t'']
      else if c = CHR 0x0A then [CHR 0x5C, CHR ''n'']
      else if c = CHR 0x0D then [CHR 0x5C, CHR ''r'']
      else if py_printable c then [c]
      else [CHR 0x5C, CHR ''x'', lower_hex (of_char c div 16), lower_hex (of_char c mod 16)])"

definition repr_str :: "string \<Rightarrow> string" where
  "repr_str s =
     (let q = (if CHR 0x27 \<in> set s \<and> CHR 0x22 \<notin> set s then CHR 0x22 else CHR 0x27)
      in q # concat (map (repr_char q) s) @ [q])"

fun py_repr :: "pyval \<Rightarrow> string" where
  "py_repr PNone = ''None''"
| "py_repr (PBool b) = (if b then ''True'' else ''False'')"
| "py_repr (PInt i) = int_to_string i"
| "py_repr (PFloat f) = float_str f"
| "py_repr (PStr s) = repr_str s"
| "py_repr (PList xs) = ''['' @ join_with '', '' (map py_repr xs) @ '']''"

definition py_str :: "pyval \<Rightarrow> string" where
  "py_str v = (case v of PStr s \<Rightarrow> s | _ \<Rightarrow> py_repr v)"

text \<open>
  \<open>sep.join(items)\<close>: every item must be a string, otherwise a \<open>TypeError\<close>.
\<close>

fun strs_of :: "pyval list \<Rightarrow> py_error + string list" where
  "strs_of [] = Inr []"
| "strs_of (PStr s # vs) = (case strs_of vs of Inl e \<Rightarrow> Inl e | Inr ss \<Rightarrow> Inr (s # ss))"
| "strs_of (v # vs) = Inl TypeError"

definition py_join :: "string \<Rightarrow> pyval list \<Rightarrow> py_error + string" where
  "py_join sep vs = (case strs_of vs of Inl e \<Rightarrow> Inl e | Inr ss \<Rightarrow> Inr (join_with sep ss))"

section \<open>Metadata normalisation (literature_rag.py, pdf_extractor.py)\<close>

text \<open>
  A metadata dictionary is an association list in insertion order. \<open>dict.get\<close> answers
  \<open>None\<close> for a missing key; an assignment overwrites the entry in place or appends it.
\<close>

type_synonym py_dict = "(string \<times> pyval) list"

definition dict_get :: "py_dict \<Rightarrow> string \<Rightarrow> pyval" where
  "dict_get m k = (case map_of m k of None \<Rightarrow> PNone | Some v \<Rightarrow> v)"

definition dict_set :: "string \<Rightarrow> pyval \<Rightarrow> py_dict \<Rightarrow> py_dict" where
  "dict_set k v m = AList.update k v m"

definition doi_prefix :: string where
  "doi_prefix = ''https://doi.org/''"

definition collapse_ws :: "string \<Rightarrow> string" where
  "collapse_ws s = join_with '' '' (py_split s)"

definition clean_doi :: "string \<Rightarrow> string" where
  "clean_doi s = py_replace doi_prefix [] (py_lower (py_strip s))"

text \<open>
  \<open>LiteratureReviewRAG._normalize_metadata\<close>, one definition per field in the order of
  the source. Joining the authors raises when a kept entry is not a string; the year
  conversion catches \<open>TypeError\<close> and \<open>ValueError\<close> only, so the \<open>OverflowError\<close> of an
  infinite float leaves the function.
\<close>

definition norm_authors :: "py_dict \<Rightarrow> py_error + py_dict" where
  "norm_authors m =
     (case dict_get m ''authors'' of
        PList xs \<Rightarrow>
          (case py_join '', '' (filter truthy xs) of
             Inl e \<Rightarrow> Inl e
           | Inr s \<Rightarrow> Inr (dict_set ''authors'' (PStr s) m))
      | PNone \<Rightarrow> Inr m
      | v \<Rightarrow> Inr (dict_set ''authors'' (PStr (py_strip (py_str v))) m))"

definition norm_year :: "py_dict \<Rightarrow> py_error + py_dict" where
  "norm_year m =
     (case dict_get m ''year'' of
        PNone \<Rightarrow> Inr m
      | v \<Rightarrow>
          (case py_int v of
             Inr i \<Rightarrow> Inr (dict_set ''year'' (PInt i) m)
           | Inl e \<Rightarrow>
               if e = TypeError \<or> e = ValueError then Inr (dict_set ''year'' PNone m)
               else Inl e))"

definition norm_doi :: "py_dict \<Rightarrow> py_dict" where
  "norm_doi m =
     (let v = dict_get m ''doi''
      in if truthy v then dict_set ''doi'' (PStr (clean_doi (py_str v))) m else m)"

definition norm_title :: "py_dict \<Rightarrow> py_dict" where
  "norm_title m =
     (let v = dict_get m ''title''
      in if truthy v then dict_set ''title'' (PStr (collapse_ws (py_str v))) m else m)"

definition normalize_metadata :: "py_dict \<Rightarrow> py_error + py_dict" where
  "normalize_metadata metadata =
     (if metadata = [] then Inr metadata
      else case norm_authors metadata of
             Inl e \<Rightarrow> Inl e
           | Inr m1 \<Rightarrow>
               (case norm_year m1 of
                  Inl e \<Rightarrow> Inl e
                | Inr m2 \<Rightarrow> Inr (norm_title (norm_doi m2))))"

text \<open>
  \<open>AcademicPDFExtractor._normalize_metadata_fields\<close> works on a \<open>PDFMetadata\<close> object, of
  which it reads and writes four attributes. Calling \<open>split\<close> or \<open>strip\<close> on a value that
  is not a string is an \<open>AttributeError\<close>; iterating over a number is a \<open>TypeError\<close>;
  iterating over a string yields its characters.
\<close>

record pdf_metadata =
  title :: pyval
  authors :: pyval
  year :: pyval
  doi :: pyval

fun py_iter :: "pyval \<Rightarrow> py_error + pyval list" where
  "py_iter (PList xs) = Inr xs"
| "py_iter (PStr s) = Inr (map (\<lambda>c. PStr [c]) s)"
| "py_iter v = Inl TypeError"

text \<open>The loop over the authors; the first argument is the list \<open>normalized\<close>.\<close>

fun clean_authors :: "string list \<Rightarrow> pyval list \<Rightarrow> string list" where
  "clean_authors normalized [] = normalized"
| "clean_authors normalized (author # rest) =
     (if \<not> truthy author then clean_authors normalized rest
      else let cleaned = collapse_ws (py_str author)
           in if cleaned \<noteq> [] \<and> cleaned \<notin> set normalized
              then clean_authors (normalized @ [cleaned]) rest
              else clean_authors normalized rest)"

definition fields_title :: "pdf_metadata \<Rightarrow> py_error + pdf_metadata" where
  "fields_title md =
     (if truthy (title md) then
        (case title md of
           PStr s \<Rightarrow> Inr (md\<lparr>title := PStr (collapse_ws s)\<rparr>)
         | _ \<Rightarrow> Inl AttributeError)
      else Inr md)"

definition fields_authors :: "pdf_metadata \<Rightarrow> py_error + pdf_metadata" where
  "fields_authors md =
     (if truthy (authors md) then
        (case py_iter (authors md) of
           Inl e \<Rightarrow> Inl e
         | Inr xs \<Rightarrow>
             (let normalized = clean_authors [] xs
              in Inr (md\<lparr>authors := (if normalized \<noteq> [] then PList (map PStr normalized)
                                      else authors md)\<rparr>)))
      else Inr md)"

definition fields_year :: "pdf_metadata \<Rightarrow> py_error + pdf_metadata" where
  "fields_year md =
     (if truthy (year md) then
        (case py_int (year md) of
           Inr i \<Rightarrow> Inr (md\<lparr>year := PInt i\<rparr>)
         | Inl e \<Rightarrow>
             if e = TypeError \<or> e = ValueError then Inr (md\<lparr>year := PNone\<rparr>) else Inl e)
      else Inr md)"

definition fields_doi :: "pdf_metadata \<Rightarrow> py_error + pdf_metadata" where
  "fields_doi md =
     (if truthy (doi md) then
        (case doi md of
           PStr s \<Rightarrow> Inr (md\<lparr>doi := PStr (clean_doi s)\<rparr>)
         | _ \<Rightarrow> Inl AttributeError)
      else Inr md)"

definition normalize_metadata_fields :: "pdf_metadata \<Rightarrow> py_error + pdf_metadata" where
  "normalize_metadata_fields md =
     (case fields_title md of
        Inl e \<Rightarrow> Inl e
      | Inr m1 \<Rightarrow>
          (case fields_authors m1 of
             Inl e \<Rightarrow> Inl e
           | Inr m2 \<Rightarrow>
               (case fields_year m2 of
                  Inl e \<Rightarrow> Inl e
                | Inr m3 \<Rightarrow> fields_doi m3)))"

text \<open>
  Predicates used below to state what a normalised record looks like: the words
  \<open>split\<close> yields, and the values the four fields hold after one pass.
\<close>

definition good_word :: "string \<Rightarrow> bool" where
  "good_word w = (w \<noteq> [] \<and> (\<forall>c\<in>set w. \<not> py_isspace c))"

definition au_ok :: "py_dict \<Rightarrow> bool" where
  "au_ok m = (dict_get m ''authors'' = PNone \<or> (\<exists>a. dict_get m ''authors'' = PStr a))"

definition yr_ok :: "py_dict \<Rightarrow> bool" where
  "yr_ok m = (dict_get m ''year'' = PNone \<or> (\<exists>i. dict_get m ''year'' = PInt i))"

definition doi_ok :: "py_dict \<Rightarrow> bool" where
  "doi_ok m = (\<not> truthy (dict_get m ''doi'') \<or> (\<exists>d. dict_get m ''doi'' = PStr d \<and> py_lower d = d))"

definition title_ok :: "py_dict \<Rightarrow> bool" where
  "title_ok m = (\<not> truthy (dict_get m ''title'') \<or> (\<exists>t. dict_get m ''title'' = PStr t \<and> collapse_ws t = t))"

definition clean_name :: "string \<Rightarrow> bool" where
  "clean_name x = (x \<noteq> [] \<and> collapse_ws x = x)"

text \<open>The two values whose conversion to an integer overflows.\<close>

definition infinite_float :: "pyval \<Rightarrow> bool" where
  "infinite_float v = (v = PFloat FInf \<or> v = PFloat FNegInf)"

section \<open>Retrieval with optional reranking (job_rag.py, literature_rag.py, reranker.py)\<close>

text \<open>
  What the vector store answers for the single query embedding the code sends: the rows
  \<open>results["documents"][0]\<close>, \<open>results["metadatas"][0]\<close>, \<open>results["distances"][0]\<close>
  and, when the key is there, \<open>results["ids"][0]\<close>. Metadata and distances are of any
  type; the cross-encoder's scores are of any linearly ordered type.
\<close>

record ('m, 'd) query_result =
  documents :: "string list"
  metadatas :: "'m list"
  distances :: "'d list"
  ids :: "string list option"

text \<open>A hit is a chunk text with the metadata and the distance at the same position.\<close>

definition hits :: "('m, 'd) query_result \<Rightarrow> (string \<times> 'm \<times> 'd) list" where
  "hits r = zip (documents r) (zip (metadatas r) (distances r))"

text \<open>
  \<open>CrossEncoderReranker.score\<close>. The model's \<open>predict\<close> is outside the repository: it is a
  parameter, and it may fail.
\<close>

type_synonym 's predict = "(string \<times> string) list \<Rightarrow> py_error + 's list"

definition score :: "'s predict \<Rightarrow> string \<Rightarrow> string list \<Rightarrow> py_error + 's list" where
  "score predict question docs =
     (if docs = [] then Inr [] else predict (map (\<lambda>doc. (question, doc)) docs))"

text \<open>
  The retrieval object: the reranker configuration and the lazily built reranker.
  \<open>_get_reranker\<close> builds the reranker on first use and keeps it; building it loads a
  model and may fail (\<open>construct\<close>).
\<close>

record 's rag =
  enabled :: bool
  rerank_top_k :: nat
  reranker :: "'s predict option"

definition get_reranker ::
  "(py_error + 's predict) \<Rightarrow> 's rag \<Rightarrow> py_error + ('s predict option \<times> 's rag)" where
  "get_reranker construct self =
     (if \<not> enabled self then Inr (None, self)
      else case reranker self of
             None \<Rightarrow>
               (case construct of
                  Inl e \<Rightarrow> Inl e
                | Inr p \<Rightarrow> Inr (Some p, self\<lparr>reranker := Some p\<rparr>))
           | Some p \<Rightarrow> Inr (Some p, self))"

text \<open>
  \<open>ranked.sort(key=lambda x: x[0], reverse=True)\<close>: a stable sort by descending score;
  entries of equal score keep their order.
\<close>

fun insert_desc :: "('s::linorder \<times> 'a) \<Rightarrow> ('s \<times> 'a) list \<Rightarrow> ('s \<times> 'a) list" where
  "insert_desc x [] = [x]"
| "insert_desc x (y # ys) = (if fst y \<le> fst x then x # y # ys else y # insert_desc x ys)"

fun sort_desc :: "('s::linorder \<times> 'a) list \<Rightarrow> ('s \<times> 'a) list" where
  "sort_desc [] = []"
| "sort_desc (x # xs) = insert_desc x (sort_desc xs)"

text \<open>\<open>list(zip(scores, docs, metas, dists))\<close>, sorted and cut to \<open>n_results\<close> (written \<open>n\<close>).\<close>

definition ranked_top ::
  "('s::linorder) list \<Rightarrow> ('m, 'd) query_result \<Rightarrow> nat \<Rightarrow> ('s \<times> string \<times> 'm \<times> 'd) list" where
  "ranked_top scores results n = take n (sort_desc (zip scores (hits results)))"

text \<open>
  The answer dictionary built from the ranked items \<open>(score, doc, meta, dist)\<close>:
  \<open>item[1]\<close>, \<open>item[2]\<close> and \<open>item[3]\<close> of every item, and the \<open>ids\<close> entry if any.
\<close>

definition answer_of ::
  "('s \<times> string \<times> 'm \<times> 'd) list \<Rightarrow> string list option \<Rightarrow> ('m, 'd) query_result" where
  "answer_of ranked ids_entry =
     \<lparr>documents = map (\<lambda>item. fst (snd item)) ranked,
      metadatas = map (\<lambda>item. fst (snd (snd item))) ranked,
      distances = map (\<lambda>item. snd (snd (snd item))) ranked,
      ids = ids_entry\<rparr>"

definition candidate_k :: "'s rag \<Rightarrow> nat \<Rightarrow> nat" where
  "candidate_k self n =
     (if enabled self then max n (rerank_top_k self) else n)"

text \<open>
  \<open>JobCollectionRAG.query\<close> from the store query on. The store's \<open>collection.query\<close> is
  the parameter \<open>collection_query\<close>, applied to the embedding, the number of results asked
  for and the filter; the change log prints the replaced argument \<open>n_results=n_results\<close>
  above the new one, \<open>n_results=candidate_k\<close>, which is the one modelled. The number of
  results is a natural number. The reranked answer has no \<open>ids\<close> key.
\<close>

definition job_query ::
  "(py_error + ('s::linorder) predict) \<Rightarrow> ('e \<Rightarrow> nat \<Rightarrow> 'w \<Rightarrow> ('m, 'd) query_result) \<Rightarrow> 's rag \<Rightarrow>
   string \<Rightarrow> 'e \<Rightarrow> nat \<Rightarrow> 'w \<Rightarrow> py_error + (('m, 'd) query_result \<times> 's rag)" where
  "job_query construct collection_query self question query_embedding n where_filter =
     (let results = collection_query query_embedding (candidate_k self n) where_filter
      in case get_reranker construct self of
           Inl e \<Rightarrow> Inl e
         | Inr (None, self') \<Rightarrow> Inr (results, self')
         | Inr (Some predict, self') \<Rightarrow>
             if documents results \<noteq> [] then
               (case score predict question (documents results) of
                  Inl e \<Rightarrow> Inl e
                | Inr scores \<Rightarrow>
                    (let ranked = ranked_top scores results n
                     in Inr (answer_of ranked None, self')))
             else Inr (results, self'))"

text \<open>
  \<open>LiteratureReviewRAG._rerank_results\<close>, which the default collection's \<open>query\<close> applies
  to the \<open>candidate_k\<close> candidates. It passes the \<open>ids\<close> row through as it is.
\<close>

definition rerank_results ::
  "(py_error + ('s::linorder) predict) \<Rightarrow> 's rag \<Rightarrow> string \<Rightarrow> ('m, 'd) query_result \<Rightarrow> nat \<Rightarrow>
   py_error + (('m, 'd) query_result \<times> 's rag)" where
  "rerank_results construct self question results n =
     (case get_reranker construct self of
        Inl e \<Rightarrow> Inl e
      | Inr (None, self') \<Rightarrow> Inr (results, self')
      | Inr (Some predict, self') \<Rightarrow>
          if documents results = [] then Inr (results, self')
          else
            (case score predict question (documents results) of
               Inl e \<Rightarrow> Inl e
             | Inr scores \<Rightarrow>
                 (let top_ranked = ranked_top scores results n
                  in Inr (answer_of top_ranked
                            (Some (case ids results of None \<Rightarrow> [] | Some i \<Rightarrow> i)), self'))))"

section \<open>Term expansion\<close>

text \<open>
  Modelled from the spec: the query expansion function (\<open>normalize_query\<close> of
  literature_rag.py and its per-job counterpart in job_rag.py) is not among the source
  files. The spec's contract: \<open>expand(query, table)\<close> returns the original query first,
  then one variant per matched synonym group, capped at a configured maximum expansion
  count; with an empty table, or expansion disabled, exactly \<open>[query]\<close>. A table entry is a
  canonical concept with its synonym phrases. How a group is matched against the query
  and how its variant is written is left open by the spec: \<open>variant_of\<close> answers the
  variant of a matched group and \<open>None\<close> for a group that does not match.
\<close>

type_synonym term_table = "(string \<times> string list) list"

record expansion_config =
  expand_queries :: bool
  max_expansions :: nat

definition expand ::
  "expansion_config \<Rightarrow> (string \<Rightarrow> string \<times> string list \<Rightarrow> string option) \<Rightarrow> string \<Rightarrow> term_table \<Rightarrow> string list" where
  "expand cfg variant_of q table =
     (if \<not> expand_queries cfg then [q]
      else q # take (max_expansions cfg) (List.map_filter (variant_of q) table))"

section \<open>Citation registry and verifier\<close>

text \<open>
  Modelled from the spec: \<open>verify_citation\<close> lives in a notebook that is not among the
  source files; only its description is. The spec's contract: find the document matching
  (author substring, year); if zero or several documents match, report not-found rather
  than guess; the citation exists iff the page index has an entry for that document and
  page and, if a quote is supplied, the quote matches: first exactly as a substring of the
  page text, else by a similarity comparison against the sliding windows of the page text,
  accepted with \<open>matchedExactly = false\<close> when the best window reaches the configured
  floor. The similarity measure is left open by the spec and is a parameter. The report
  carries the matched document's formatted citation and a preview of the page.
\<close>

record reg_document =
  doc_id :: string
  doc_authors :: string
  doc_year :: int
  doc_citation :: string

type_synonym page_index = "((string \<times> nat) \<times> string) list"

record verification =
  exists :: bool
  citation :: string
  preview :: string
  matchedExactly :: bool

definition not_found :: verification where
  "not_found = \<lparr>exists = False, citation = [], preview = [], matchedExactly = False\<rparr>"

definition matching_documents :: "reg_document list \<Rightarrow> string \<Rightarrow> int \<Rightarrow> reg_document list" where
  "matching_documents registry author yr =
     filter (\<lambda>d. occurs author (doc_authors d) \<and> doc_year d = yr) registry"

text \<open>The windows of the quote's length over the page text, from left to right.\<close>

fun windows :: "nat \<Rightarrow> string \<Rightarrow> string list" where
  "windows w [] = []"
| "windows w (c # cs) = (if length (c # cs) < w then [] else take w (c # cs) # windows w cs)"

text \<open>The first window of the highest similarity, with that similarity.\<close>

fun best_window :: "(string \<Rightarrow> string \<Rightarrow> nat) \<Rightarrow> string \<Rightarrow> string list \<Rightarrow> (string \<times> nat) option" where
  "best_window similarity quote [] = None"
| "best_window similarity quote (w # ws) =
     (case best_window similarity quote ws of
        None \<Rightarrow> Some (w, similarity quote w)
      | Some (b, sb) \<Rightarrow> if sb > similarity quote w then Some (b, sb) else Some (w, similarity quote w))"

definition verify ::
  "reg_document list \<Rightarrow> page_index \<Rightarrow> (string \<Rightarrow> string \<Rightarrow> nat) \<Rightarrow> nat \<Rightarrow>
   string \<Rightarrow> int \<Rightarrow> nat \<Rightarrow> string option \<Rightarrow> verification" where
  "verify registry pages similarity floor author yr page quote =
     (case matching_documents registry author yr of
        [d] \<Rightarrow>
          (case map_of pages (doc_id d, page) of
             None \<Rightarrow> not_found
           | Some text \<Rightarrow>
               (case quote of
                  None \<Rightarrow>
                    \<lparr>exists = True, citation = doc_citation d, preview = text, matchedExactly = False\<rparr>
                | Some q \<Rightarrow>
                    if occurs q text then
                      \<lparr>exists = True, citation = doc_citation d, preview = text, matchedExactly = True\<rparr>
                    else
                      (case best_window similarity q (windows (length q) text) of
                         None \<Rightarrow> not_found
                       | Some (w, sw) \<Rightarrow>
                           if sw \<ge> floor then
                             \<lparr>exists = True, citation = doc_citation d, preview = w,
                              matchedExactly = False\<rparr>
                           else not_found)))
      | _ \<Rightarrow> not_found)"

section \<open>Agentic synthesis controller\<close>

text \<open>
  Modelled from the spec: the controller (\<open>AgenticRAGPipeline\<close> in agentic.py) is not
  among the source files; only the construction of its configuration is. The spec gives
  the states \<open>Classify, Retrieve, Generate, Evaluate\<close> and then
  \<open>Done | RetryRetrieve | RetryGenerate | Fail\<close>, and the transitions: \<open>RetryRetrieve\<close> is
  triggered when Evaluate finds insufficient grounding and the retrieval-retry budget is not
  exhausted, and returns to Retrieve; \<open>RetryGenerate\<close> is triggered when grounding is
  sufficient but citation accuracy is poor and the generation-retry budget is not exhausted,
  and returns to Generate; \<open>Done\<close> and \<open>Fail\<close> are terminal. The two budgets are
  configuration (\<open>max_retrieval_retries\<close>, \<open>max_regeneration_retries\<close>).

  The model keeps the control state: the phase and the retries used so far. Retrieval, the
  language model and the scoring are outside the controller; what Evaluate finds after a
  given number of retrieval and generation retries is the parameter \<open>outcome\<close>. A retry
  is counted when it is triggered.
\<close>

datatype phase = Classify | Retrieve | Generate | Evaluate | RetryRetrieve | RetryGenerate | Done | Fail

record agentic_config =
  max_retrieval_retries :: nat
  max_regeneration_retries :: nat

record agent_state =
  phase_of :: phase
  retrieval_retries :: nat
  regeneration_retries :: nat

record evaluation =
  grounding_sufficient :: bool
  citations_accurate :: bool

definition initial_state :: agent_state where
  "initial_state = \<lparr>phase_of = Classify, retrieval_retries = 0, regeneration_retries = 0\<rparr>"

definition terminal :: "agent_state \<Rightarrow> bool" where
  "terminal s = (phase_of s = Done \<or> phase_of s = Fail)"

definition evaluate_next :: "agentic_config \<Rightarrow> evaluation \<Rightarrow> agent_state \<Rightarrow> agent_state" where
  "evaluate_next cfg ev s =
     (if \<not> grounding_sufficient ev then
        (if retrieval_retries s < max_retrieval_retries cfg
         then s\<lparr>phase_of := RetryRetrieve, retrieval_retries := retrieval_retries s + 1\<rparr>
         else s\<lparr>phase_of := Fail\<rparr>)
      else if \<not> citations_accurate ev then
        (if regeneration_retries s < max_regeneration_retries cfg
         then s\<lparr>phase_of := RetryGenerate, regeneration_retries := regeneration_retries s + 1\<rparr>
         else s\<lparr>phase_of := Fail\<rparr>)
      else s\<lparr>phase_of := Done\<rparr>)"

definition step :: "agentic_config \<Rightarrow> (nat \<Rightarrow> nat \<Rightarrow> evaluation) \<Rightarrow> agent_state \<Rightarrow> agent_state" where
  "step cfg outcome s =
     (case phase_of s of
        Classify \<Rightarrow> s\<lparr>phase_of := Retrieve\<rparr>
      | Retrieve \<Rightarrow> s\<lparr>phase_of := Generate\<rparr>
      | Generate \<Rightarrow> s\<lparr>phase_of := Evaluate\<rparr>
      | Evaluate \<Rightarrow> evaluate_next cfg (outcome (retrieval_retries s) (regeneration_retries s)) s
      | RetryRetrieve \<Rightarrow> s\<lparr>phase_of := Retrieve\<rparr>
      | RetryGenerate \<Rightarrow> s\<lparr>phase_of := Generate\<rparr>
      | Done \<Rightarrow> s
      | Fail \<Rightarrow> s)"

text \<open>
  A measure of the work left: four states per retrieval retry still allowed, three per
  generation retry still allowed, and the rank of the phase within the current attempt.
\<close>

fun phase_rank :: "phase \<Rightarrow> nat" where
  "phase_rank Classify = 4"
| "phase_rank RetryRetrieve = 4"
| "phase_rank Retrieve = 3"
| "phase_rank RetryGenerate = 3"
| "phase_rank Generate = 2"
| "phase_rank Evaluate = 1"
| "phase_rank Done = 0"
| "phase_rank Fail = 0"

definition remaining :: "agentic_config \<Rightarrow> agent_state \<Rightarrow> nat" where
  "remaining cfg s =
     4 * (max_retrieval_retries cfg - retrieval_retries s)
     + 3 * (max_regeneration_retries cfg - regeneration_retries s)
     + phase_rank (phase_of s)"

text \<open>
  The trace of the controller from a state: the states it passes through, the last one
  terminal. Every step lowers \<open>remaining\<close>, so the trace is finite for every
  configuration and every outcome.
\<close>

function run :: "agentic_config \<Rightarrow> (nat \<Rightarrow> nat \<Rightarrow> evaluation) \<Rightarrow> agent_state \<Rightarrow> agent_state list" where
  "run cfg outcome s = (if terminal s then [s] else s # run cfg outcome (step cfg outcome s))"
  by pat_completeness auto
termination
proof (relation "measure (\<lambda>(cfg, outcome, s). remaining cfg s)")
  show "wf (measure (\<lambda>(cfg, outcome, s). remaining cfg s))"
    by simp
next
  fix cfg :: agentic_config and outcome :: "nat \<Rightarrow> nat \<Rightarrow> evaluation" and s :: agent_state
  assume "\<not> terminal s"
  then have "remaining cfg (step cfg outcome s) < remaining cfg s"
    by (cases "phase_of s") (auto simp: terminal_def step_def remaining_def evaluate_next_def)
  then show "((cfg, outcome, step cfg outcome s), cfg, outcome, s)
      \<in> measure (\<lambda>(cfg, outcome, s). remaining cfg s)"
    by simp
qed

declare run.simps [simp del]

text \<open>How often a trace passes through \<open>RetryRetrieve\<close>.\<close>

definition retry_retrieve_count :: "agent_state list \<Rightarrow> nat" where
  "retry_retrieve_count trace = length (filter (\<lambda>t. phase_of t = RetryRetrieve) trace)"

section \<open>Durable task tracker\<close>

text \<open>
  Modelled from the spec: the task store (\<open>TaskStore\<close> in tasks.py, over the table
  \<open>upload_tasks\<close>) is not among the source files; only the header of the module is. The
  spec's contract: \<open>create() -> taskId\<close>, \<open>update(taskId, status, progress, message)\<close>,
  \<open>get(taskId) -> status snapshot\<close>; the tracker persists to durable storage, not to
  process memory, so that a restart or a second worker process still answers \<open>get\<close>;
  \<open>update\<close> calls are monotonic in progress for a given task and never regress silently.

  The model separates the durable table from what a worker process holds in its own
  memory. Every operation reads and writes the durable table only. An update that would
  lower the stored progress is refused with an error and changes nothing, which is how the
  model reads ``never regress silently''.
\<close>

datatype task_status = Queued | Running | Completed | Failed

record task_snapshot =
  status :: task_status
  progress :: nat
  message :: string

datatype task_error = UnknownTask | ProgressRegression

type_synonym task_table = "(nat \<times> task_snapshot) list"

record tracker =
  durable :: task_table
  volatile :: task_table

definition fresh_id :: "task_table \<Rightarrow> nat" where
  "fresh_id tbl = Suc (fold max (map fst tbl) 0)"

definition create :: "tracker \<Rightarrow> nat \<times> tracker" where
  "create t =
     (let task_id = fresh_id (durable t)
      in (task_id,
          t\<lparr>durable := durable t @ [(task_id, \<lparr>status = Queued, progress = 0, message = []\<rparr>)]\<rparr>))"

definition get :: "tracker \<Rightarrow> nat \<Rightarrow> task_snapshot option" where
  "get t task_id = map_of (durable t) task_id"

definition update ::
  "tracker \<Rightarrow> nat \<Rightarrow> task_status \<Rightarrow> nat \<Rightarrow> string \<Rightarrow> task_error + tracker" where
  "update t task_id st pr msg =
     (case get t task_id of
        None \<Rightarrow> Inl UnknownTask
      | Some old \<Rightarrow>
          if pr < progress old then Inl ProgressRegression
          else Inr (t\<lparr>durable :=
                 AList.update task_id \<lparr>status = st, progress = pr, message = msg\<rparr> (durable t)\<rparr>))"

text \<open>
  A process restart loses the process memory and nothing else; a second worker process
  starts with an empty memory on the same durable table.
\<close>

definition restart :: "tracker \<Rightarrow> tracker" where
  "restart t = t\<lparr>volatile := []\<rparr>"

definition second_worker :: "tracker \<Rightarrow> tracker" where
  "second_worker t = \<lparr>durable = durable t, volatile = []\<rparr>"

text \<open>
  A sequence of update calls on one tracker; a refused call leaves the tracker as it was.
\<close>

fun apply_updates :: "tracker \<Rightarrow> (nat \<times> task_status \<times> nat \<times> string) list \<Rightarrow> tracker" where
  "apply_updates t [] = t"
| "apply_updates t ((task_id, st, pr, msg) # calls) =
     (case update t task_id st pr msg of
        Inl e \<Rightarrow> apply_updates t calls
      | Inr t' \<Rightarrow> apply_updates t' calls)"

section \<open>Properties of the web client\<close>

lemma usp_get_set_same: "usp_get (usp_set k v ps) k = Some v"
  by (induction ps) (auto simp: usp_get_def)

lemma usp_get_set_other: "k' \<noteq> k \<Longrightarrow> usp_get (usp_set k v ps) k' = usp_get ps k'"
proof (induction ps)
  case Nil
  then show ?case by (simp add: usp_get_def)
next
  case (Cons p ps)
  have "map_of (filter (\<lambda>q. fst q \<noteq> k) ps) k' = map_of ps k'"
    using Cons.prems by (induction ps) auto
  with Cons show ?case by (cases p) (auto simp: usp_get_def)
qed

lemma usp_get_set_if_num:
  "usp_get (set_if_num k v ps) k' =
     (if k' = k \<and> truthy_num v then Some (int_to_string (the v)) else usp_get ps k')"
  by (simp add: set_if_num_def usp_get_set_same usp_get_set_other)

lemma usp_get_set_if_str:
  "usp_get (set_if_str k v ps) k' =
     (if k' = k \<and> truthy_str v then Some (the v) else usp_get ps k')"
  by (simp add: set_if_str_def usp_get_set_same usp_get_set_other)

lemma usp_get_empty: "usp_get [] k = None"
  by (simp add: usp_get_def)

lemma usp_get_single: "usp_get [(k, v)] k' = (if k' = k then Some v else None)"
  by (simp add: usp_get_def)

lemmas search_get_simps =
  search_params_def usp_get_set_if_num usp_get_set_if_str usp_get_set_same usp_get_set_other
  usp_get_empty usp_get_single

text \<open>
  Claim C10. \<open>ApiClient.search\<close> leaves every optional parameter with a falsy value out of
  the query string: \<open>n_results\<close>, \<open>year_min\<close> and \<open>year_max\<close> are sent exactly when they
  are present and non-zero, \<open>phase_filter\<close> and \<open>topic_filter\<close> exactly when they are
  present and non-empty; a zero year bound yields the same request as no year bound at all.
  The required \<open>query\<close> is always sent.
\<close>

theorem search_drops_falsy:
  "usp_get (search_params p) ''query'' = Some (query p)
   \<and> usp_get (search_params p) ''n_results'' =
       (if truthy_num (n_results p) then Some (int_to_string (the (n_results p))) else None)
   \<and> usp_get (search_params p) ''phase_filter'' =
       (if truthy_str (phase_filter p) then phase_filter p else None)
   \<and> usp_get (search_params p) ''topic_filter'' =
       (if truthy_str (topic_filter p) then topic_filter p else None)
   \<and> usp_get (search_params p) ''year_min'' =
       (if truthy_num (year_min p) then Some (int_to_string (the (year_min p))) else None)
   \<and> usp_get (search_params p) ''year_max'' =
       (if truthy_num (year_max p) then Some (int_to_string (the (year_max p))) else None)
   \<and> search_endpoint (p\<lparr>year_min := Some 0\<rparr>) = search_endpoint (p\<lparr>year_min := None\<rparr>)
   \<and> search_endpoint (p\<lparr>year_max := Some 0\<rparr>) = search_endpoint (p\<lparr>year_max := None\<rparr>)
   \<and> search_endpoint (p\<lparr>n_results := Some 0\<rparr>) = search_endpoint (p\<lparr>n_results := None\<rparr>)
   \<and> search_endpoint (p\<lparr>phase_filter := Some []\<rparr>) = search_endpoint (p\<lparr>phase_filter := None\<rparr>)
   \<and> search_endpoint (p\<lparr>topic_filter := Some []\<rparr>) = search_endpoint (p\<lparr>topic_filter := None\<rparr>)"
proof -
  have g: "usp_get (search_params p) ''query'' = Some (query p)"
    by (simp add: search_get_simps)
  have n: "usp_get (search_params p) ''n_results'' =
       (if truthy_num (n_results p) then Some (int_to_string (the (n_results p))) else None)"
    by (simp add: search_get_simps)
  have ph: "usp_get (search_params p) ''phase_filter'' =
       (if truthy_str (phase_filter p) then phase_filter p else None)"
    by (cases "phase_filter p") (simp_all add: search_get_simps truthy_str_def)
  have tp: "usp_get (search_params p) ''topic_filter'' =
       (if truthy_str (topic_filter p) then topic_filter p else None)"
    by (cases "topic_filter p") (simp_all add: search_get_simps truthy_str_def)
  have ymin: "usp_get (search_params p) ''year_min'' =
       (if truthy_num (year_min p) then Some (int_to_string (the (year_min p))) else None)"
    by (simp add: search_get_simps)
  have ymax: "usp_get (search_params p) ''year_max'' =
       (if truthy_num (year_max p) then Some (int_to_string (the (year_max p))) else None)"
    by (simp add: search_get_simps)
  have e: "search_endpoint (p\<lparr>year_min := Some 0\<rparr>) = search_endpoint (p\<lparr>year_min := None\<rparr>)"
    "search_endpoint (p\<lparr>year_max := Some 0\<rparr>) = search_endpoint (p\<lparr>year_max := None\<rparr>)"
    "search_endpoint (p\<lparr>n_results := Some 0\<rparr>) = search_endpoint (p\<lparr>n_results := None\<rparr>)"
    "search_endpoint (p\<lparr>phase_filter := Some []\<rparr>) = search_endpoint (p\<lparr>phase_filter := None\<rparr>)"
    "search_endpoint (p\<lparr>topic_filter := Some []\<rparr>) = search_endpoint (p\<lparr>topic_filter := None\<rparr>)"
    by (simp_all add: search_endpoint_def search_params_def set_if_num_def set_if_str_def
        truthy_num_def truthy_str_def)
  from g n ph tp ymin ymax e show ?thesis by blast
qed

text \<open>
  The request of a caller who asks for \<open>regional adjustment\<close> with \<open>year_min = 0\<close> and
  \<open>year_max = 2012\<close>: the lower bound is absent from the query string.
\<close>

theorem search_drops_falsy_witness:
  "usp_get (search_params \<lparr>query = ''regional adjustment'', n_results = Some 0,
       phase_filter = Some [], topic_filter = None, year_min = Some 0, year_max = Some 2012\<rparr>)
     ''year_min'' = None
   \<and> search_endpoint \<lparr>query = ''regional adjustment'', n_results = Some 0,
       phase_filter = Some [], topic_filter = None, year_min = Some 0, year_max = Some 2012\<rparr>
     = ''/api/search?query=regional+adjustment&year_max=2012''"
proof -
  let ?p = "\<lparr>query = ''regional adjustment'', n_results = Some 0,
       phase_filter = Some [], topic_filter = None, year_min = Some 0, year_max = Some 2012\<rparr>"
  have a: "usp_get (search_params ?p) ''year_min'' = None"
    using search_drops_falsy [of ?p] by (simp add: truthy_num_def)
  have b: "search_endpoint ?p = ''/api/search?query=regional+adjustment&year_max=2012''"
    by code_simp
  from a b show ?thesis by simp
qed

section \<open>Properties of metadata normalisation\<close>

lemma dropWhile_fixed: "xs = [] \<or> \<not> P (hd xs) \<Longrightarrow> dropWhile P xs = xs"
  by (cases xs) auto

lemma py_strip_idem: "py_strip (py_strip s) = py_strip s"
proof -
  define t where "t = dropWhile py_isspace s"
  define u where "u = rev (dropWhile py_isspace (rev t))"
  have t: "t = [] \<or> \<not> py_isspace (hd t)"
    unfolding t_def by (metis hd_dropWhile)
  have split: "t = u @ rev (takeWhile py_isspace (rev t))"
    unfolding u_def by (metis rev_append rev_rev_ident takeWhile_dropWhile_id)
  have "u = [] \<or> \<not> py_isspace (hd u)"
  proof (cases "u = []")
    case False
    then have "hd u = hd t" using split by (metis hd_append2)
    moreover have "t \<noteq> []" using False split by auto
    ultimately show ?thesis using t by simp
  qed simp
  then have a: "dropWhile py_isspace u = u" by (rule dropWhile_fixed)
  have b: "dropWhile py_isspace (rev u) = rev u"
    unfolding u_def by (simp add: dropWhile_idem)
  show ?thesis
    unfolding py_strip_def t_def [symmetric] u_def [symmetric] by (simp add: a b)
qed

lemma lower_char_idem: "lower_char (lower_char c) = lower_char c"
proof -
  define n where "n = (of_char c :: nat)"
  have "n < 256" unfolding n_def by simp
  show ?thesis
  proof (cases "(65 \<le> n \<and> n \<le> 90) \<or> (192 \<le> n \<and> n \<le> 222 \<and> n \<noteq> 215)")
    case True
    then have l: "lower_char c = char_of (n + 32)"
      by (simp add: lower_char_def n_def Let_def)
    have o: "(of_char (char_of (n + 32) :: char) :: nat) = n + 32" using True by auto
    have "\<not> ((65 \<le> n + 32 \<and> n + 32 \<le> 90) \<or> (192 \<le> n + 32 \<and> n + 32 \<le> 222 \<and> n + 32 \<noteq> 215))"
      using True by arith
    then have "lower_char (char_of (n + 32)) = char_of (n + 32)"
      unfolding lower_char_def Let_def o by simp
    then show ?thesis unfolding l .
  next
    case False
    then have "lower_char c = c" unfolding n_def lower_char_def Let_def by auto
    then show ?thesis by simp
  qed
qed

lemma py_lower_idem: "py_lower (py_lower s) = py_lower s"
  by (simp add: py_lower_def lower_char_idem)

lemma replace_from_absent: "\<not> occurs old s \<Longrightarrow> replace_from old new s = s"
proof (induction s)
  case Nil
  then show ?case by (subst replace_from.simps) simp
next
  case (Cons c cs)
  then show ?case by (subst replace_from.simps) auto
qed

lemma set_replace_from: "set (replace_from old [] s) \<subseteq> set s"
proof (induction old "[] :: string" s rule: replace_from.induct)
  case (1 old s)
  show ?case
  proof (cases "old = [] \<or> s = []")
    case True
    then show ?thesis by (subst replace_from.simps) simp
  next
    case False
    show ?thesis
    proof (cases "take (length old) s = old")
      case True
      then have "set (replace_from old [] s) = set (replace_from old [] (drop (length old) s))"
        using False by (subst replace_from.simps) simp
      also have "\<dots> \<subseteq> set (drop (length old) s)" using 1(1) False True by simp
      also have "\<dots> \<subseteq> set s" by (rule set_drop_subset)
      finally show ?thesis .
    next
      case nt: False
      from False obtain c cs where s: "s = c # cs" by (cases s) auto
      have "replace_from old [] s = c # replace_from old [] cs"
        using False nt s by (subst replace_from.simps) simp
      moreover have "set (replace_from old [] cs) \<subseteq> set cs" using 1(2) False nt s by simp
      ultimately show ?thesis using s by auto
    qed
  qed
qed

lemma split_acc_append: "\<forall>c\<in>set u. \<not> py_isspace c \<Longrightarrow> split_acc w (u @ s) = split_acc (w @ u) s"
  by (induction u arbitrary: w) auto

lemma split_acc_good:
  "(\<forall>c\<in>set w. \<not> py_isspace c) \<Longrightarrow> x \<in> set (split_acc w s) \<Longrightarrow> good_word x"
proof (induction s arbitrary: w)
  case Nil
  then show ?case by (auto simp: good_word_def split: if_splits)
next
  case (Cons c cs)
  show ?case
  proof (cases "py_isspace c")
    case True
    then have "(x = w \<and> w \<noteq> []) \<or> x \<in> set (split_acc [] cs)"
      using Cons.prems(2) by (auto split: if_splits)
    then show ?thesis
      using Cons.IH [of "[]"] Cons.prems(1) by (auto simp: good_word_def)
  next
    case False
    then have "x \<in> set (split_acc (w @ [c]) cs)"
      using Cons.prems(2) by simp
    then show ?thesis
      using Cons.IH [of "w @ [c]"] Cons.prems(1) False by auto
  qed
qed

lemma space_isspace: "py_isspace CHR '' ''"
  by (simp add: py_isspace_def)

lemma split_join_good:
  "\<forall>x\<in>set ws. good_word x \<Longrightarrow> split_acc [] (join_with '' '' ws) = ws"
proof (induction "'' ''" ws rule: join_with.induct)
  case 1
  then show ?case by simp
next
  case (2 x)
  then have "split_acc [] (x @ []) = split_acc ([] @ x) []"
    by (intro split_acc_append) (simp add: good_word_def)
  with 2 show ?case by (simp add: good_word_def)
next
  case (3 x y ys)
  then have gx: "good_word x" by simp
  have "split_acc [] (x @ '' '' @ join_with '' '' (y # ys)) = split_acc ([] @ x) ('' '' @ join_with '' '' (y # ys))"
    using gx by (intro split_acc_append) (simp add: good_word_def)
  also have "\<dots> = x # split_acc [] (join_with '' '' (y # ys))"
    using gx space_isspace by (simp add: good_word_def)
  finally show ?case using 3 by simp
qed

lemma collapse_ws_idem: "collapse_ws (collapse_ws s) = collapse_ws s"
  unfolding collapse_ws_def py_split_def
  using split_join_good [of "split_acc [] s"] split_acc_good [of "[]" _ s] by simp

lemma dict_get_set: "dict_get (dict_set k v m) k' = (if k' = k then v else dict_get m k')"
  by (simp add: dict_get_def dict_set_def update_conv')

lemma dict_set_same: "dict_get m k = v \<Longrightarrow> v \<noteq> PNone \<Longrightarrow> dict_set k v m = m"
  unfolding dict_get_def dict_set_def
  by (cases "map_of m k") (auto intro: update_triv)

lemma dict_get_Nil: "dict_get [] k = PNone"
  by (simp add: dict_get_def)

lemma norm_authors_ok: "norm_authors m = Inr m1 \<Longrightarrow> au_ok m1"
  by (auto simp: norm_authors_def au_ok_def dict_get_set split: pyval.splits sum.splits)

lemma norm_year_ok: "norm_year m1 = Inr m2 \<Longrightarrow> yr_ok m2"
  by (auto simp: norm_year_def yr_ok_def dict_get_set split: pyval.splits sum.splits if_splits)

lemma norm_year_other:
  "norm_year m1 = Inr m2 \<Longrightarrow> k \<noteq> ''year'' \<Longrightarrow> dict_get m2 k = dict_get m1 k"
  by (auto simp: norm_year_def dict_get_set split: pyval.splits sum.splits if_splits)

lemma py_lower_fixed: "\<forall>c\<in>set d. lower_char c = c \<Longrightarrow> py_lower d = d"
  by (simp add: py_lower_def map_idI)

lemma clean_doi_lower: "py_lower (clean_doi s) = clean_doi s"
proof -
  have "set (clean_doi s) \<subseteq> set (py_lower (py_strip s))"
    unfolding clean_doi_def py_replace_def doi_prefix_def
    using set_replace_from [of "''https://doi.org/''" "py_lower (py_strip s)"] by simp
  moreover have "\<forall>c\<in>set (py_lower (py_strip s)). lower_char c = c"
    by (auto simp: py_lower_def lower_char_idem)
  ultimately show ?thesis by (intro py_lower_fixed) blast
qed

lemma norm_doi_ok: "doi_ok (norm_doi m)"
  by (auto simp: norm_doi_def doi_ok_def dict_get_set Let_def clean_doi_lower)

lemma norm_doi_other: "k \<noteq> ''doi'' \<Longrightarrow> dict_get (norm_doi m) k = dict_get m k"
  by (simp add: norm_doi_def dict_get_set Let_def)

lemma norm_title_ok: "title_ok (norm_title m)"
  by (auto simp: norm_title_def title_ok_def dict_get_set Let_def collapse_ws_idem)

lemma norm_title_other: "k \<noteq> ''title'' \<Longrightarrow> dict_get (norm_title m) k = dict_get m k"
  by (simp add: norm_title_def dict_get_set Let_def)

lemma normalize_metadata_ok:
  assumes "normalize_metadata m = Inr m'"
  shows "au_ok m' \<and> yr_ok m' \<and> doi_ok m' \<and> title_ok m'"
proof (cases "m = []")
  case True
  with assms have "m' = []" by (simp add: normalize_metadata_def)
  then show ?thesis by (simp add: au_ok_def yr_ok_def doi_ok_def title_ok_def dict_get_Nil)
next
  case False
  with assms obtain m1 m2 where
    a: "norm_authors m = Inr m1" and y: "norm_year m1 = Inr m2" and
    r: "m' = norm_title (norm_doi m2)"
    by (auto simp: normalize_metadata_def split: sum.splits)
  have "au_ok m'"
    using norm_authors_ok [OF a] norm_year_other [OF y, of "''authors''"]
    by (simp add: au_ok_def r norm_title_other norm_doi_other)
  moreover have "yr_ok m'"
    using norm_year_ok [OF y] by (simp add: yr_ok_def r norm_title_other norm_doi_other)
  moreover have "doi_ok m'"
    using norm_doi_ok [of m2] by (simp add: doi_ok_def r norm_title_other)
  moreover have "title_ok m'"
    by (simp add: r norm_title_ok)
  ultimately show ?thesis by simp
qed

lemma norm_authors_again:
  "au_ok m \<Longrightarrow> \<exists>m1. norm_authors m = Inr m1 \<and>
     (\<forall>k. k \<noteq> ''authors'' \<longrightarrow> dict_get m1 k = dict_get m k) \<and>
     ((\<forall>a. dict_get m ''authors'' = PStr a \<longrightarrow> py_strip a = a) \<longrightarrow> m1 = m)"
  by (auto simp: au_ok_def norm_authors_def dict_get_set py_str_def dict_set_same)

lemma norm_year_again: "yr_ok m \<Longrightarrow> norm_year m = Inr m"
  by (auto simp: yr_ok_def norm_year_def dict_set_same)

lemma norm_title_again: "title_ok m \<Longrightarrow> norm_title m = m"
  by (auto simp: title_ok_def norm_title_def Let_def py_str_def dict_set_same)

lemma clean_doi_fixed:
  "py_lower d = d \<Longrightarrow> py_strip d = d \<Longrightarrow> \<not> occurs doi_prefix d \<Longrightarrow> clean_doi d = d"
  by (simp add: clean_doi_def py_replace_def doi_prefix_def replace_from_absent)

lemma norm_doi_again:
  "doi_ok m \<Longrightarrow> (\<forall>d. dict_get m ''doi'' = PStr d \<longrightarrow> py_strip d = d \<and> \<not> occurs doi_prefix d)
     \<Longrightarrow> norm_doi m = m"
  by (auto simp: doi_ok_def norm_doi_def Let_def py_str_def clean_doi_fixed dict_set_same)

lemma normalize_metadata_again:
  assumes "normalize_metadata m = Inr m'"
  shows "\<exists>m''. normalize_metadata m' = Inr m''
     \<and> dict_get m'' ''year'' = dict_get m' ''year''
     \<and> dict_get m'' ''title'' = dict_get m' ''title''
     \<and> ((\<forall>a. dict_get m' ''authors'' = PStr a \<longrightarrow> py_strip a = a)
          \<and> (\<forall>d. dict_get m' ''doi'' = PStr d \<longrightarrow> py_strip d = d \<and> \<not> occurs doi_prefix d)
         \<longrightarrow> m'' = m')"
proof (cases "m' = []")
  case True
  then show ?thesis by (simp add: normalize_metadata_def)
next
  case False
  from normalize_metadata_ok [OF assms]
  have ok: "au_ok m'" "yr_ok m'" "doi_ok m'" "title_ok m'" by simp_all
  from norm_authors_again [OF ok(1)] obtain m1 where
    a: "norm_authors m' = Inr m1" and
    o: "\<And>k. k \<noteq> ''authors'' \<Longrightarrow> dict_get m1 k = dict_get m' k" and
    i: "(\<forall>a. dict_get m' ''authors'' = PStr a \<longrightarrow> py_strip a = a) \<Longrightarrow> m1 = m'"
    by blast
  have "yr_ok m1" using ok(2) by (simp add: yr_ok_def o)
  then have y: "norm_year m1 = Inr m1" by (rule norm_year_again)
  have "title_ok (norm_doi m1)"
    using ok(4) by (simp add: title_ok_def norm_doi_other o)
  then have t: "norm_title (norm_doi m1) = norm_doi m1" by (rule norm_title_again)
  have r: "normalize_metadata m' = Inr (norm_doi m1)"
    using False a y t by (simp add: normalize_metadata_def)
  have "dict_get (norm_doi m1) ''year'' = dict_get m' ''year''"
    by (simp add: norm_doi_other o)
  moreover have "dict_get (norm_doi m1) ''title'' = dict_get m' ''title''"
    by (simp add: norm_doi_other o)
  moreover have "norm_doi m1 = m'"
    if h: "(\<forall>a. dict_get m' ''authors'' = PStr a \<longrightarrow> py_strip a = a)
          \<and> (\<forall>d. dict_get m' ''doi'' = PStr d \<longrightarrow> py_strip d = d \<and> \<not> occurs doi_prefix d)"
  proof -
    have "m1 = m'" using i h by blast
    then show ?thesis using norm_doi_again [OF ok(3)] h by simp
  qed
  ultimately show ?thesis using r by blast
qed

lemma clean_authors_clean:
  "\<forall>x\<in>set acc. clean_name x \<Longrightarrow> distinct acc \<Longrightarrow>
   (\<forall>x\<in>set (clean_authors acc xs). clean_name x) \<and> distinct (clean_authors acc xs)"
proof (induction xs arbitrary: acc)
  case Nil
  then show ?case by simp
next
  case (Cons a xs)
  show ?case
  proof (cases "truthy a \<and> collapse_ws (py_str a) \<noteq> [] \<and> collapse_ws (py_str a) \<notin> set acc")
    case True
    then have e: "clean_authors acc (a # xs) = clean_authors (acc @ [collapse_ws (py_str a)]) xs"
      by (simp add: Let_def)
    have "\<forall>x\<in>set (acc @ [collapse_ws (py_str a)]). clean_name x"
      using Cons.prems(1) True by (auto simp: clean_name_def collapse_ws_idem)
    moreover have "distinct (acc @ [collapse_ws (py_str a)])"
      using Cons.prems(2) True by simp
    ultimately show ?thesis unfolding e by (rule Cons.IH)
  next
    case False
    then have "clean_authors acc (a # xs) = clean_authors acc xs"
      by (auto simp: Let_def)
    then show ?thesis using Cons.IH [OF Cons.prems] by simp
  qed
qed

lemma clean_authors_fixed:
  "\<forall>x\<in>set ns. clean_name x \<Longrightarrow> distinct (acc @ ns) \<Longrightarrow>
   clean_authors acc (map PStr ns) = acc @ ns"
proof (induction ns arbitrary: acc)
  case Nil
  then show ?case by simp
next
  case (Cons n ns)
  have n: "n \<noteq> []" "collapse_ws n = n" "n \<notin> set acc"
    using Cons.prems by (auto simp: clean_name_def)
  have "clean_authors acc (map PStr (n # ns)) = clean_authors (acc @ [n]) (map PStr ns)"
    using n by (simp add: Let_def py_str_def)
  also have "\<dots> = (acc @ [n]) @ ns"
    using Cons.prems by (intro Cons.IH) auto
  finally show ?case by simp
qed

lemma fields_title_fix:
  "fields_title md = Inr m1 \<Longrightarrow>
     authors m1 = authors md \<and> year m1 = year md \<and> doi m1 = doi md \<and>
     (\<not> truthy (title m1) \<or> (\<exists>t. title m1 = PStr t \<and> collapse_ws t = t))"
  by (auto simp: fields_title_def collapse_ws_idem split: if_splits pyval.splits)

lemma fields_title_again:
  "\<not> truthy (title md) \<or> (\<exists>t. title md = PStr t \<and> collapse_ws t = t) \<Longrightarrow> fields_title md = Inr md"
  by (auto simp: fields_title_def)

lemma fields_authors_other:
  "fields_authors md = Inr m2 \<Longrightarrow> title m2 = title md \<and> year m2 = year md \<and> doi m2 = doi md"
  by (auto simp: fields_authors_def Let_def split: if_splits sum.splits)

lemma fields_authors_again:
  assumes "fields_authors md = Inr m2"
  shows "fields_authors (m3\<lparr>authors := authors m2\<rparr>) = Inr (m3\<lparr>authors := authors m2\<rparr>)"
proof (cases "truthy (authors md)")
  case False
  with assms have "authors m2 = authors md" by (simp add: fields_authors_def)
  with False show ?thesis by (simp add: fields_authors_def)
next
  case True
  with assms obtain xs where xs: "py_iter (authors md) = Inr xs"
    by (auto simp: fields_authors_def split: sum.splits)
  define ns where "ns = clean_authors [] xs"
  show ?thesis
  proof (cases "ns = []")
    case e: True
    then have "authors m2 = authors md"
      using assms True xs by (auto simp: fields_authors_def ns_def Let_def)
    then show ?thesis
      using True xs e by (simp add: fields_authors_def ns_def Let_def)
  next
    case ne: False
    then have m2: "authors m2 = PList (map PStr ns)"
      using assms True xs by (auto simp: fields_authors_def ns_def Let_def)
    have "(\<forall>x\<in>set ns. clean_name x) \<and> distinct ns"
      unfolding ns_def by (rule clean_authors_clean) simp_all
    then have "clean_authors [] (map PStr ns) = [] @ ns"
      by (intro clean_authors_fixed) simp_all
    then show ?thesis
      using ne by (simp add: fields_authors_def m2 Let_def)
  qed
qed

lemma fields_year_fix:
  "fields_year md = Inr m3 \<Longrightarrow>
     title m3 = title md \<and> authors m3 = authors md \<and> doi m3 = doi md \<and>
     (\<not> truthy (year m3) \<or> (\<exists>i. year m3 = PInt i))"
  by (auto simp: fields_year_def split: if_splits sum.splits)

lemma fields_year_again:
  "\<not> truthy (year md) \<or> (\<exists>i. year md = PInt i) \<Longrightarrow> fields_year md = Inr md"
  by (auto simp: fields_year_def)

lemma fields_doi_fix:
  "fields_doi md = Inr m4 \<Longrightarrow>
     title m4 = title md \<and> authors m4 = authors md \<and> year m4 = year md \<and>
     (\<not> truthy (doi m4) \<or> (\<exists>d. doi m4 = PStr d \<and> py_lower d = d))"
  by (auto simp: fields_doi_def clean_doi_lower split: if_splits pyval.splits)

lemma fields_doi_again:
  "\<not> truthy (doi md) \<or> (\<exists>d. doi md = PStr d \<and> py_lower d = d) \<Longrightarrow>
   \<exists>m. fields_doi md = Inr m \<and> title m = title md \<and> authors m = authors md \<and> year m = year md
     \<and> ((\<forall>d. doi md = PStr d \<longrightarrow> py_strip d = d \<and> \<not> occurs doi_prefix d) \<longrightarrow> m = md)"
  by (auto simp: fields_doi_def clean_doi_fixed)

lemma normalize_metadata_fields_again:
  assumes "normalize_metadata_fields md = Inr md'"
  shows "\<exists>md''. normalize_metadata_fields md' = Inr md''
     \<and> title md'' = title md' \<and> authors md'' = authors md' \<and> year md'' = year md'
     \<and> ((\<forall>d. doi md' = PStr d \<longrightarrow> py_strip d = d \<and> \<not> occurs doi_prefix d) \<longrightarrow> md'' = md')"
proof -
  from assms obtain m1 m2 m3 where
    s1: "fields_title md = Inr m1" and s2: "fields_authors m1 = Inr m2" and
    s3: "fields_year m2 = Inr m3" and s4: "fields_doi m3 = Inr md'"
    by (auto simp: normalize_metadata_fields_def split: sum.splits)
  note f1 = fields_title_fix [OF s1] and f2 = fields_authors_other [OF s2]
    and f3 = fields_year_fix [OF s3] and f4 = fields_doi_fix [OF s4]
  have t: "fields_title md' = Inr md'"
    using f1 f2 f3 f4 by (intro fields_title_again) simp
  have "authors md' = authors m2" using f3 f4 by simp
  then have "md'\<lparr>authors := authors m2\<rparr> = md'" by simp
  then have a: "fields_authors md' = Inr md'"
    using fields_authors_again [OF s2, of md'] by simp
  have y: "fields_year md' = Inr md'"
    using f3 f4 by (intro fields_year_again) simp
  from fields_doi_again [of md'] f4 obtain m where
    d: "fields_doi md' = Inr m" "title m = title md'" "authors m = authors md'" "year m = year md'"
      "(\<forall>d. doi md' = PStr d \<longrightarrow> py_strip d = d \<and> \<not> occurs doi_prefix d) \<longrightarrow> m = md'"
    by blast
  have "normalize_metadata_fields md' = Inr m"
    by (simp add: normalize_metadata_fields_def t a y d(1))
  with d show ?thesis by blast
qed

lemma strs_of_strings:
  "\<forall>x\<in>set vs. \<exists>s. x = PStr s \<Longrightarrow> \<exists>ss. strs_of vs = Inr ss"
proof (induction vs)
  case Nil
  then show ?case by simp
next
  case (Cons v vs)
  then obtain s where "v = PStr s" by auto
  moreover from Cons obtain ss where "strs_of vs = Inr ss" by auto
  ultimately show ?case by simp
qed

lemma norm_authors_typed:
  assumes "\<forall>xs. dict_get m ''authors'' = PList xs \<longrightarrow> (\<forall>x\<in>set xs. truthy x \<longrightarrow> (\<exists>s. x = PStr s))"
  shows "\<exists>m1. norm_authors m = Inr m1 \<and> dict_get m1 ''year'' = dict_get m ''year''"
proof (cases "dict_get m ''authors''")
  case (PList xs)
  with assms have "\<forall>x\<in>set (filter truthy xs). \<exists>s. x = PStr s" by simp
  from strs_of_strings [OF this] obtain ss where "strs_of (filter truthy xs) = Inr ss" ..
  then show ?thesis using PList by (simp add: norm_authors_def py_join_def dict_get_set)
qed (simp_all add: norm_authors_def dict_get_set)

lemma py_int_errors:
  "\<not> infinite_float v \<Longrightarrow> py_int v = Inl e \<Longrightarrow> e = TypeError \<or> e = ValueError"
  by (cases v)
     (auto simp: int_of_str_def int_of_float_def infinite_float_def Let_def
           split: if_splits pyfloat.splits)

lemma filter_dropWhile_others:
  "(\<And>x. Q x \<Longrightarrow> \<not> P x) \<Longrightarrow> filter P (dropWhile Q xs) = filter P xs"
  by (induction xs) auto

lemma space_not_digit: "int_isspace c \<Longrightarrow> \<not> is_digit c"
  by (auto simp: int_isspace_def is_digit_def Let_def)

lemma digits_int_strip: "filter is_digit (int_strip s) = filter is_digit s"
proof -
  have "filter is_digit (int_strip s)
      = rev (filter is_digit (dropWhile int_isspace (rev (dropWhile int_isspace s))))"
    by (simp add: int_strip_def rev_filter)
  also have "\<dots> = rev (filter is_digit (rev (dropWhile int_isspace s)))"
    by (simp add: filter_dropWhile_others space_not_digit)
  also have "\<dots> = filter is_digit (dropWhile int_isspace s)"
    by (simp add: rev_filter)
  also have "\<dots> = filter is_digit s"
    by (simp add: filter_dropWhile_others space_not_digit)
  finally show ?thesis .
qed

lemma int_of_str_digit_limit:
  assumes "int_max_str_digits < length (filter is_digit s)"
  shows "int_of_str s = Inl ValueError"
proof -
  define t where "t = int_strip s"
  define body where
    "body = (if t \<noteq> [] \<and> (hd t = CHR ''-'' \<or> hd t = CHR ''+'') then tl t else t)"
  have "filter is_digit body = filter is_digit t"
  proof (cases "t \<noteq> [] \<and> (hd t = CHR ''-'' \<or> hd t = CHR ''+'')")
    case True
    then obtain c cs where t: "t = c # cs" and c: "c = CHR ''-'' \<or> c = CHR ''+''"
      by (cases t) auto
    from c have "\<not> is_digit c" by (auto simp: is_digit_def)
    with True t show ?thesis by (simp add: body_def)
  next
    case False
    then show ?thesis by (auto simp: body_def)
  qed
  then have "length (filter is_digit body) = length (filter is_digit s)"
    by (simp add: t_def digits_int_strip)
  with assms have "\<not> length (filter is_digit body) \<le> int_max_str_digits" by simp
  then show ?thesis
    unfolding int_of_str_def Let_def t_def [symmetric] body_def [symmetric] by simp
qed

lemma int_of_str_examples:
  "int_of_str '' 2012'' = Inr 2012
   \<and> int_of_str (''2012'' @ [CHR 0x0A]) = Inr 2012
   \<and> int_of_str (CHR 0xA0 # ''-1_000'') = Inr (- 1000)
   \<and> int_of_str (CHR 0x1C # ''2012'') = Inl ValueError
   \<and> int_of_str (''2012'' @ [CHR 0x1F]) = Inl ValueError
   \<and> int_of_str ''2012.0'' = Inl ValueError
   \<and> py_int (PFloat (FFinite 20125 (- 1) ''10062.5'')) = Inr 10062
   \<and> py_int (PFloat (FFinite (- 5) (- 1) ''-2.5'')) = Inr (- 2)
   \<and> py_int (PFloat FNan) = Inl ValueError
   \<and> py_int (PFloat FInf) = Inl OverflowError"
  by code_simp

lemma norm_year_value:
  "\<not> infinite_float (dict_get m1 ''year'') \<Longrightarrow>
   \<exists>m2. norm_year m1 = Inr m2 \<and>
     dict_get m2 ''year'' =
       (case dict_get m1 ''year'' of
          PNone \<Rightarrow> PNone
        | v \<Rightarrow> (case py_int v of Inr i \<Rightarrow> PInt i | Inl e \<Rightarrow> PNone))"
proof (cases "dict_get m1 ''year'' = PNone")
  case True
  then show ?thesis by (simp add: norm_year_def)
next
  case False
  assume fin: "\<not> infinite_float (dict_get m1 ''year'')"
  show ?thesis
  proof (cases "py_int (dict_get m1 ''year'')")
    case (Inl e)
    with py_int_errors [OF fin Inl] False show ?thesis
      by (cases "dict_get m1 ''year''") (auto simp: norm_year_def dict_get_set)
  next
    case (Inr i)
    with False show ?thesis
      by (cases "dict_get m1 ''year''") (auto simp: norm_year_def dict_get_set)
  qed
qed

lemma normalize_metadata_typed:
  assumes "\<forall>xs. dict_get m ''authors'' = PList xs \<longrightarrow> (\<forall>x\<in>set xs. truthy x \<longrightarrow> (\<exists>s. x = PStr s))"
    and "\<not> infinite_float (dict_get m ''year'')"
  shows "\<exists>m'. normalize_metadata m = Inr m' \<and>
     dict_get m' ''year'' =
       (case dict_get m ''year'' of
          PNone \<Rightarrow> PNone
        | v \<Rightarrow> (case py_int v of Inr i \<Rightarrow> PInt i | Inl e \<Rightarrow> PNone))"
proof (cases "m = []")
  case True
  then show ?thesis by (simp add: normalize_metadata_def dict_get_Nil)
next
  case False
  from norm_authors_typed [OF assms(1)] obtain m1 where
    a: "norm_authors m = Inr m1" and ay: "dict_get m1 ''year'' = dict_get m ''year''" by blast
  from assms(2) ay have "\<not> infinite_float (dict_get m1 ''year'')" by simp
  from norm_year_value [OF this] obtain m2 where
    y: "norm_year m1 = Inr m2" and
    yv: "dict_get m2 ''year'' =
       (case dict_get m1 ''year'' of
          PNone \<Rightarrow> PNone
        | v \<Rightarrow> (case py_int v of Inr i \<Rightarrow> PInt i | Inl e \<Rightarrow> PNone))" by blast
  have "normalize_metadata m = Inr (norm_title (norm_doi m2))"
    using False a y by (simp add: normalize_metadata_def)
  moreover have "dict_get (norm_title (norm_doi m2)) ''year'' = dict_get m2 ''year''"
    by (simp add: norm_title_other norm_doi_other)
  ultimately show ?thesis using yv ay by simp
qed

lemma fields_year_value:
  "\<not> infinite_float (year md) \<Longrightarrow>
   \<exists>m3. fields_year md = Inr m3 \<and> title m3 = title md \<and> authors m3 = authors md \<and> doi m3 = doi md \<and>
     year m3 = (if truthy (year md)
                then (case py_int (year md) of Inr i \<Rightarrow> PInt i | Inl e \<Rightarrow> PNone)
                else year md)"
proof (cases "py_int (year md)")
  case (Inl e)
  assume "\<not> infinite_float (year md)"
  from py_int_errors [OF this Inl] Inl show ?thesis by (auto simp: fields_year_def)
next
  case (Inr i)
  then show ?thesis by (auto simp: fields_year_def)
qed

lemma fields_title_typed:
  "title md = PNone \<or> (\<exists>t. title md = PStr t) \<Longrightarrow>
   \<exists>m1. fields_title md = Inr m1 \<and> authors m1 = authors md \<and> year m1 = year md \<and> doi m1 = doi md"
  by (auto simp: fields_title_def)

lemma fields_authors_typed:
  "authors md = PNone \<or> (\<exists>xs. authors md = PList xs) \<Longrightarrow>
   \<exists>m2. fields_authors md = Inr m2 \<and> year m2 = year md \<and> doi m2 = doi md"
  by (auto simp: fields_authors_def Let_def)

lemma fields_doi_typed:
  "doi md = PNone \<or> (\<exists>d. doi md = PStr d) \<Longrightarrow>
   \<exists>m4. fields_doi md = Inr m4 \<and> year m4 = year md"
  by (auto simp: fields_doi_def)

lemma normalize_metadata_fields_typed:
  assumes "title md = PNone \<or> (\<exists>t. title md = PStr t)"
    and "authors md = PNone \<or> (\<exists>xs. authors md = PList xs)"
    and "doi md = PNone \<or> (\<exists>d. doi md = PStr d)"
    and "\<not> infinite_float (year md)"
  shows "\<exists>md'. normalize_metadata_fields md = Inr md' \<and>
     year md' = (if truthy (year md)
                 then (case py_int (year md) of Inr i \<Rightarrow> PInt i | Inl e \<Rightarrow> PNone)
                 else year md)"
proof -
  from fields_title_typed [OF assms(1)] obtain m1 where
    s1: "fields_title md = Inr m1" "authors m1 = authors md" "year m1 = year md" "doi m1 = doi md"
    by blast
  from assms(2) s1(2) have "authors m1 = PNone \<or> (\<exists>xs. authors m1 = PList xs)" by simp
  from fields_authors_typed [OF this] obtain m2 where
    s2: "fields_authors m1 = Inr m2" "year m2 = year m1" "doi m2 = doi m1"
    by blast
  from assms(4) s1(3) s2(2) have "\<not> infinite_float (year m2)" by simp
  from fields_year_value [OF this] obtain m3 where
    s3: "fields_year m2 = Inr m3" "doi m3 = doi m2"
      "year m3 = (if truthy (year m2)
                then (case py_int (year m2) of Inr i \<Rightarrow> PInt i | Inl e \<Rightarrow> PNone)
                else year m2)"
    by blast
  from assms(3) s1(4) s2(3) s3(2) have "doi m3 = PNone \<or> (\<exists>d. doi m3 = PStr d)" by simp
  from fields_doi_typed [OF this] obtain m4 where
    s4: "fields_doi m3 = Inr m4" "year m4 = year m3"
    by blast
  have "normalize_metadata_fields md = Inr m4"
    by (simp add: normalize_metadata_fields_def s1(1) s2(1) s3(1) s4(1))
  then show ?thesis using s4(2) s3(3) s2(2) s1(3) by simp
qed

text \<open>
  Claim C3 (amended). A second normalisation never fails and leaves the year and the title
  of the first result as they are; for \<open>_normalize_metadata_fields\<close> it also leaves the
  authors as they are. It returns the first result unchanged whenever that result's DOI
  has no surrounding whitespace and no remaining \<open>https://doi.org/\<close>, and (for
  \<open>_normalize_metadata\<close>) its authors string has no surrounding whitespace.
\<close>

theorem normalize_twice_when_clean:
  "(normalize_metadata m = Inr m' \<longrightarrow>
      (\<exists>m''. normalize_metadata m' = Inr m''
         \<and> dict_get m'' ''year'' = dict_get m' ''year''
         \<and> dict_get m'' ''title'' = dict_get m' ''title''
         \<and> ((\<forall>a. dict_get m' ''authors'' = PStr a \<longrightarrow> py_strip a = a)
              \<and> (\<forall>d. dict_get m' ''doi'' = PStr d \<longrightarrow> py_strip d = d \<and> \<not> occurs doi_prefix d)
             \<longrightarrow> m'' = m')))
   \<and> (normalize_metadata_fields md = Inr md' \<longrightarrow>
      (\<exists>md''. normalize_metadata_fields md' = Inr md''
         \<and> title md'' = title md' \<and> authors md'' = authors md' \<and> year md'' = year md'
         \<and> ((\<forall>d. doi md' = PStr d \<longrightarrow> py_strip d = d \<and> \<not> occurs doi_prefix d)
             \<longrightarrow> md'' = md')))"
  using normalize_metadata_again [of m m'] normalize_metadata_fields_again [of md md']
  by blast

theorem normalize_twice_when_clean_witness:
  "normalize_metadata
     [(''authors'', PList [PStr ''Thelen'', PNone, PStr ''Hall'']), (''year'', PStr '' 2012''),
      (''doi'', PStr '' HTTPS://DOI.ORG/10.1/X ''), (''title'', PStr '' Varieties  of Capitalism '')]
     = Inr [(''authors'', PStr ''Thelen, Hall''), (''year'', PInt 2012),
            (''doi'', PStr ''10.1/x''), (''title'', PStr ''Varieties of Capitalism'')]
   \<and> normalize_metadata
     [(''authors'', PStr ''Thelen, Hall''), (''year'', PInt 2012),
      (''doi'', PStr ''10.1/x''), (''title'', PStr ''Varieties of Capitalism'')]
     = Inr [(''authors'', PStr ''Thelen, Hall''), (''year'', PInt 2012),
            (''doi'', PStr ''10.1/x''), (''title'', PStr ''Varieties of Capitalism'')]
   \<and> normalize_metadata_fields
     \<lparr>title = PStr '' Varieties  of Capitalism '', authors = PList [PStr ''K.  Thelen'', PStr ''K. Thelen''],
      year = PStr ''2012'', doi = PStr ''HTTPS://doi.org/10.1/X''\<rparr>
     = Inr \<lparr>title = PStr ''Varieties of Capitalism'', authors = PList [PStr ''K. Thelen''],
            year = PInt 2012, doi = PStr ''10.1/x''\<rparr>
   \<and> normalize_metadata_fields
     \<lparr>title = PStr ''Varieties of Capitalism'', authors = PList [PStr ''K. Thelen''],
      year = PInt 2012, doi = PStr ''10.1/x''\<rparr>
     = Inr \<lparr>title = PStr ''Varieties of Capitalism'', authors = PList [PStr ''K. Thelen''],
            year = PInt 2012, doi = PStr ''10.1/x''\<rparr>"
proof -
  let ?m = "[(''authors'', PList [PStr ''Thelen'', PNone, PStr ''Hall'']), (''year'', PStr '' 2012''),
      (''doi'', PStr '' HTTPS://DOI.ORG/10.1/X ''), (''title'', PStr '' Varieties  of Capitalism '')]"
  let ?m' = "[(''authors'', PStr ''Thelen, Hall''), (''year'', PInt 2012),
            (''doi'', PStr ''10.1/x''), (''title'', PStr ''Varieties of Capitalism'')]"
  let ?md = "\<lparr>title = PStr '' Varieties  of Capitalism '', authors = PList [PStr ''K.  Thelen'', PStr ''K. Thelen''],
      year = PStr ''2012'', doi = PStr ''HTTPS://doi.org/10.1/X''\<rparr>"
  let ?md' = "\<lparr>title = PStr ''Varieties of Capitalism'', authors = PList [PStr ''K. Thelen''],
            year = PInt 2012, doi = PStr ''10.1/x''\<rparr>"
  have 1: "normalize_metadata ?m = Inr ?m'" by code_simp
  have 2: "normalize_metadata_fields ?md = Inr ?md'" by code_simp
  have a: "dict_get ?m' ''authors'' = PStr ''Thelen, Hall''" by (simp add: dict_get_def)
  have d: "dict_get ?m' ''doi'' = PStr ''10.1/x''" by (simp add: dict_get_def)
  have sa: "py_strip ''Thelen, Hall'' = ''Thelen, Hall''" by code_simp
  have sd: "py_strip ''10.1/x'' = ''10.1/x''" by code_simp
  have od: "\<not> occurs doi_prefix ''10.1/x''" by code_simp
  have h1: "(\<forall>a. dict_get ?m' ''authors'' = PStr a \<longrightarrow> py_strip a = a)
      \<and> (\<forall>d. dict_get ?m' ''doi'' = PStr d \<longrightarrow> py_strip d = d \<and> \<not> occurs doi_prefix d)"
    unfolding a d using sa sd od by simp
  have h2: "\<forall>d. doi ?md' = PStr d \<longrightarrow> py_strip d = d \<and> \<not> occurs doi_prefix d"
    using sd od by simp
  from normalize_twice_when_clean [of ?m ?m' ?md ?md'] 1 2 h1 h2
  have "normalize_metadata ?m' = Inr ?m'" and "normalize_metadata_fields ?md' = Inr ?md'"
    by blast+
  with 1 2 show ?thesis by blast
qed

text \<open>
  Claim C3 as stated fails: a DOI written with a blank after the resolver prefix, and an
  author entry with a leading blank, change again under a second normalisation.
\<close>

theorem normalize_not_idempotent:
  "normalize_metadata [(''doi'', PStr ''https://doi.org/ 10.1000/182'')]
      = Inr [(''doi'', PStr '' 10.1000/182'')]
   \<and> normalize_metadata [(''doi'', PStr '' 10.1000/182'')]
      = Inr [(''doi'', PStr ''10.1000/182'')]
   \<and> normalize_metadata [(''authors'', PList [PStr '' Thelen''])]
      = Inr [(''authors'', PStr '' Thelen'')]
   \<and> normalize_metadata [(''authors'', PStr '' Thelen'')]
      = Inr [(''authors'', PStr ''Thelen'')]
   \<and> normalize_metadata_fields
        \<lparr>title = PNone, authors = PNone, year = PNone, doi = PStr ''https://doi.org/ 10.1000/182''\<rparr>
      = Inr \<lparr>title = PNone, authors = PNone, year = PNone, doi = PStr '' 10.1000/182''\<rparr>
   \<and> normalize_metadata_fields
        \<lparr>title = PNone, authors = PNone, year = PNone, doi = PStr '' 10.1000/182''\<rparr>
      = Inr \<lparr>title = PNone, authors = PNone, year = PNone, doi = PStr ''10.1000/182''\<rparr>"
  by code_simp

text \<open>
  Claim C7 (amended). Normalisation returns a record, without raising, whenever the
  values have the types the extractor produces: the title and the DOI are strings or
  \<open>None\<close>; the authors are \<open>None\<close> or a list whose kept entries are strings or, for
  \<open>_normalize_metadata\<close>, a string; the year is \<open>None\<close>, a boolean, an integer, a string,
  a list or a float other than an infinity. The year of the result is \<open>None\<close> when \<open>int\<close>
  rejects the year with a \<open>TypeError\<close> or a \<open>ValueError\<close> (a string that is no decimal
  numeral for \<open>int\<close>, a list, NaN) and the integer \<open>int\<close> yields otherwise;
  \<open>_normalize_metadata_fields\<close> leaves a falsy year as it is.
\<close>

theorem normalize_total_on_typed:
  "((dict_get m ''title'' = PNone \<or> (\<exists>t. dict_get m ''title'' = PStr t))
      \<and> (dict_get m ''doi'' = PNone \<or> (\<exists>d. dict_get m ''doi'' = PStr d))
      \<and> (dict_get m ''authors'' = PNone \<or> (\<exists>a. dict_get m ''authors'' = PStr a)
           \<or> (\<exists>xs. dict_get m ''authors'' = PList xs
                 \<and> (\<forall>x\<in>set xs. truthy x \<longrightarrow> (\<exists>s. x = PStr s))))
      \<and> \<not> infinite_float (dict_get m ''year'')
     \<longrightarrow> (\<exists>m'. normalize_metadata m = Inr m' \<and>
            dict_get m' ''year'' =
              (case dict_get m ''year'' of
                 PNone \<Rightarrow> PNone
               | v \<Rightarrow> (case py_int v of Inr i \<Rightarrow> PInt i | Inl e \<Rightarrow> PNone))))
   \<and> ((title md = PNone \<or> (\<exists>t. title md = PStr t))
        \<and> (doi md = PNone \<or> (\<exists>d. doi md = PStr d))
        \<and> (authors md = PNone
             \<or> (\<exists>xs. authors md = PList xs \<and> (\<forall>x\<in>set xs. truthy x \<longrightarrow> (\<exists>s. x = PStr s))))
        \<and> \<not> infinite_float (year md)
     \<longrightarrow> (\<exists>md'. normalize_metadata_fields md = Inr md' \<and>
            year md' = (if truthy (year md)
                        then (case py_int (year md) of Inr i \<Rightarrow> PInt i | Inl e \<Rightarrow> PNone)
                        else year md)))"
proof -
  have a: "\<exists>m'. normalize_metadata m = Inr m' \<and>
            dict_get m' ''year'' =
              (case dict_get m ''year'' of
                 PNone \<Rightarrow> PNone
               | v \<Rightarrow> (case py_int v of Inr i \<Rightarrow> PInt i | Inl e \<Rightarrow> PNone))"
    if h: "(dict_get m ''title'' = PNone \<or> (\<exists>t. dict_get m ''title'' = PStr t))
      \<and> (dict_get m ''doi'' = PNone \<or> (\<exists>d. dict_get m ''doi'' = PStr d))
      \<and> (dict_get m ''authors'' = PNone \<or> (\<exists>a. dict_get m ''authors'' = PStr a)
           \<or> (\<exists>xs. dict_get m ''authors'' = PList xs
                 \<and> (\<forall>x\<in>set xs. truthy x \<longrightarrow> (\<exists>s. x = PStr s))))
      \<and> \<not> infinite_float (dict_get m ''year'')"
  proof -
    from h have "\<forall>xs. dict_get m ''authors'' = PList xs
        \<longrightarrow> (\<forall>x\<in>set xs. truthy x \<longrightarrow> (\<exists>s. x = PStr s))"
      by auto
    moreover from h have "\<not> infinite_float (dict_get m ''year'')" by simp
    ultimately show ?thesis by (rule normalize_metadata_typed)
  qed
  have b: "\<exists>md'. normalize_metadata_fields md = Inr md' \<and>
            year md' = (if truthy (year md)
                        then (case py_int (year md) of Inr i \<Rightarrow> PInt i | Inl e \<Rightarrow> PNone)
                        else year md)"
    if h: "(title md = PNone \<or> (\<exists>t. title md = PStr t))
        \<and> (doi md = PNone \<or> (\<exists>d. doi md = PStr d))
        \<and> (authors md = PNone
             \<or> (\<exists>xs. authors md = PList xs \<and> (\<forall>x\<in>set xs. truthy x \<longrightarrow> (\<exists>s. x = PStr s))))
        \<and> \<not> infinite_float (year md)"
  proof -
    from h have "title md = PNone \<or> (\<exists>t. title md = PStr t)" by simp
    moreover from h have "authors md = PNone \<or> (\<exists>xs. authors md = PList xs)" by auto
    moreover from h have "doi md = PNone \<or> (\<exists>d. doi md = PStr d)" by simp
    moreover from h have "\<not> infinite_float (year md)" by simp
    ultimately show ?thesis by (rule normalize_metadata_fields_typed)
  qed
  from a b show ?thesis by blast
qed

text \<open>
  A year whose digits follow the separator \<open>0x1c\<close> is no numeral for \<open>int\<close> and becomes
  \<open>None\<close>, and so does a NaN year; a year of the float 2012.0 becomes 2012.
\<close>

theorem normalize_total_on_typed_witness:
  "(\<exists>m'. normalize_metadata
         [(''authors'', PList [PStr ''Thelen'', PNone]), (''year'', PStr (CHR 0x1C # ''2012''))] = Inr m'
        \<and> dict_get m' ''year'' = PNone)
   \<and> (\<exists>m'. normalize_metadata
         [(''authors'', PStr ''Thelen''), (''year'', PFloat (FFinite 2012 0 ''2012.0''))] = Inr m'
        \<and> dict_get m' ''year'' = PInt 2012)
   \<and> (\<exists>md'. normalize_metadata_fields
         \<lparr>title = PStr ''Varieties'', authors = PList [PStr ''Thelen''], year = PFloat FNan, doi = PNone\<rparr>
         = Inr md' \<and> year md' = PNone)
   \<and> (\<exists>md'. normalize_metadata_fields
         \<lparr>title = PStr ''Varieties'', authors = PList [PStr ''Thelen''], year = PStr ''20I2'', doi = PNone\<rparr>
         = Inr md' \<and> year md' = PNone)"
proof -
  let ?m = "[(''authors'', PList [PStr ''Thelen'', PNone]), (''year'', PStr (CHR 0x1C # ''2012''))]"
  let ?n = "[(''authors'', PStr ''Thelen''), (''year'', PFloat (FFinite 2012 0 ''2012.0''))]"
  let ?md = "\<lparr>title = PStr ''Varieties'', authors = PList [PStr ''Thelen''], year = PFloat FNan, doi = PNone\<rparr>"
  let ?nd = "\<lparr>title = PStr ''Varieties'', authors = PList [PStr ''Thelen''], year = PStr ''20I2'', doi = PNone\<rparr>"
  have am: "dict_get ?m ''authors'' = PList [PStr ''Thelen'', PNone]" by (simp add: dict_get_def)
  have ym: "dict_get ?m ''year'' = PStr (CHR 0x1C # ''2012'')" by (simp add: dict_get_def)
  have tm: "dict_get ?m ''title'' = PNone" "dict_get ?m ''doi'' = PNone" by (simp_all add: dict_get_def)
  have an: "dict_get ?n ''authors'' = PStr ''Thelen''" by (simp add: dict_get_def)
  have yn: "dict_get ?n ''year'' = PFloat (FFinite 2012 0 ''2012.0'')" by (simp add: dict_get_def)
  have tn: "dict_get ?n ''title'' = PNone" "dict_get ?n ''doi'' = PNone" by (simp_all add: dict_get_def)
  have hm: "(dict_get ?m ''title'' = PNone \<or> (\<exists>t. dict_get ?m ''title'' = PStr t))
      \<and> (dict_get ?m ''doi'' = PNone \<or> (\<exists>d. dict_get ?m ''doi'' = PStr d))
      \<and> (dict_get ?m ''authors'' = PNone \<or> (\<exists>a. dict_get ?m ''authors'' = PStr a)
           \<or> (\<exists>xs. dict_get ?m ''authors'' = PList xs
                 \<and> (\<forall>x\<in>set xs. truthy x \<longrightarrow> (\<exists>s. x = PStr s))))
      \<and> \<not> infinite_float (dict_get ?m ''year'')"
    unfolding am ym tm by (simp add: infinite_float_def)
  have hn: "(dict_get ?n ''title'' = PNone \<or> (\<exists>t. dict_get ?n ''title'' = PStr t))
      \<and> (dict_get ?n ''doi'' = PNone \<or> (\<exists>d. dict_get ?n ''doi'' = PStr d))
      \<and> (dict_get ?n ''authors'' = PNone \<or> (\<exists>a. dict_get ?n ''authors'' = PStr a)
           \<or> (\<exists>xs. dict_get ?n ''authors'' = PList xs
                 \<and> (\<forall>x\<in>set xs. truthy x \<longrightarrow> (\<exists>s. x = PStr s))))
      \<and> \<not> infinite_float (dict_get ?n ''year'')"
    unfolding an yn tn by (simp add: infinite_float_def)
  have hmd: "(title ?md = PNone \<or> (\<exists>t. title ?md = PStr t))
        \<and> (doi ?md = PNone \<or> (\<exists>d. doi ?md = PStr d))
        \<and> (authors ?md = PNone
             \<or> (\<exists>xs. authors ?md = PList xs \<and> (\<forall>x\<in>set xs. truthy x \<longrightarrow> (\<exists>s. x = PStr s))))
        \<and> \<not> infinite_float (year ?md)"
    by (simp add: infinite_float_def)
  have hnd: "(title ?nd = PNone \<or> (\<exists>t. title ?nd = PStr t))
        \<and> (doi ?nd = PNone \<or> (\<exists>d. doi ?nd = PStr d))
        \<and> (authors ?nd = PNone
             \<or> (\<exists>xs. authors ?nd = PList xs \<and> (\<forall>x\<in>set xs. truthy x \<longrightarrow> (\<exists>s. x = PStr s))))
        \<and> \<not> infinite_float (year ?nd)"
    by (simp add: infinite_float_def)
  have p1: "int_of_str (CHR 0x1C # ''2012'') = Inl ValueError" by code_simp
  have p2: "int_of_str ''20I2'' = Inl ValueError" by code_simp
  have p3: "int_of_float (FFinite 2012 0 ''2012.0'') = Inr 2012" by code_simp
  have p4: "int_of_float FNan = Inl ValueError" by code_simp
  note t1 = normalize_total_on_typed [of ?m ?md, THEN conjunct1, THEN mp, OF hm]
  note t2 = normalize_total_on_typed [of ?n ?md, THEN conjunct1, THEN mp, OF hn]
  note t3 = normalize_total_on_typed [of ?m ?md, THEN conjunct2, THEN mp, OF hmd]
  note t4 = normalize_total_on_typed [of ?m ?nd, THEN conjunct2, THEN mp, OF hnd]
  have 1: "\<exists>m'. normalize_metadata ?m = Inr m' \<and> dict_get m' ''year'' = PNone"
    using t1 unfolding ym by (simp add: p1)
  have 2: "\<exists>m'. normalize_metadata ?n = Inr m' \<and> dict_get m' ''year'' = PInt 2012"
    using t2 unfolding yn by (simp add: p3)
  have 3: "\<exists>md'. normalize_metadata_fields ?md = Inr md' \<and> year md' = PNone"
    using t3 by (simp add: p4)
  have 4: "\<exists>md'. normalize_metadata_fields ?nd = Inr md' \<and> year md' = PNone"
    using t4 by (simp add: p2)
  from 1 2 3 4 show ?thesis by blast
qed

text \<open>
  Claim C7 as stated fails: joining an authors list that holds a number raises, and so
  does the conversion of an infinite float year, whose \<open>OverflowError\<close> is not among the
  exceptions the code catches.
\<close>

theorem normalize_raises_on_untyped_authors:
  "normalize_metadata [(''title'', PStr ''Varieties''), (''authors'', PList [PStr ''Thelen'', PInt 2012])]
     = Inl TypeError
   \<and> normalize_metadata [(''title'', PStr ''Varieties''), (''year'', PFloat FInf)]
     = Inl OverflowError
   \<and> normalize_metadata_fields
       \<lparr>title = PStr ''Varieties'', authors = PList [PStr ''Thelen''], year = PFloat FInf, doi = PNone\<rparr>
     = Inl OverflowError"
  by code_simp

section \<open>Properties of retrieval and reranking\<close>

lemma mset_insert_desc: "mset (insert_desc x xs) = add_mset x (mset xs)"
  by (induction xs) auto

lemma mset_sort_desc: "mset (sort_desc xs) = mset xs"
  by (induction xs) (auto simp: mset_insert_desc)


lemma set_insert_desc: "set (insert_desc x xs) = insert x (set xs)"
  using mset_insert_desc [of x xs] by (metis set_mset_mset set_mset_add_mset_insert)

lemma sorted_insert_desc:
  "sorted_wrt (\<lambda>a b. fst b \<le> fst a) xs \<Longrightarrow> sorted_wrt (\<lambda>a b. fst b \<le> fst a) (insert_desc x xs)"
proof (induction xs)
  case Nil
  then show ?case by simp
next
  case (Cons y ys)
  show ?case
  proof (cases "fst y \<le> fst x")
    case True
    with Cons.prems show ?thesis by auto
  next
    case False
    then have "fst x \<le> fst y" by simp
    with Cons False show ?thesis by (auto simp: set_insert_desc)
  qed
qed

lemma sorted_sort_desc: "sorted_wrt (\<lambda>a b. fst b \<le> fst a) (sort_desc xs)"
  by (induction xs) (auto simp: sorted_insert_desc)

lemma filter_insert_desc:
  "sorted_wrt (\<lambda>a b. fst b \<le> fst a) xs \<Longrightarrow>
   filter (\<lambda>y. fst y = k) (insert_desc x xs) =
     (if fst x = k then x # filter (\<lambda>y. fst y = k) xs else filter (\<lambda>y. fst y = k) xs)"
  by (induction xs) auto

lemma sort_desc_stable: "filter (\<lambda>y. fst y = k) (sort_desc xs) = filter (\<lambda>y. fst y = k) xs"
  by (induction xs) (simp_all add: filter_insert_desc sorted_sort_desc)

lemma unzip_ranked:
  "zip (map (\<lambda>item. fst (snd item)) xs)
       (zip (map (\<lambda>item. fst (snd (snd item))) xs) (map (\<lambda>item. snd (snd (snd item))) xs))
   = map snd xs"
  by (induction xs) auto



lemma length_ranked_top: "length (ranked_top scores results n) \<le> n"
  by (simp add: ranked_top_def)

lemma sorted_ranked_top: "sorted_wrt (\<lambda>a b. fst b \<le> fst a) (ranked_top scores results n)"
  unfolding ranked_top_def by (rule sorted_wrt_take) (rule sorted_sort_desc)

lemma get_reranker_disabled: "\<not> enabled self \<Longrightarrow> get_reranker construct self = Inr (None, self)"
  by (simp add: get_reranker_def)

lemma get_reranker_enabled:
  "enabled self \<Longrightarrow> (case reranker self of Some p \<Rightarrow> Inr p | None \<Rightarrow> construct) = Inr predict \<Longrightarrow>
   get_reranker construct self = Inr (Some predict, self\<lparr>reranker := Some predict\<rparr>)"
  by (cases "reranker self") (auto simp: get_reranker_def)

lemma get_reranker_fails:
  "enabled self \<Longrightarrow> reranker self = None \<Longrightarrow> construct = Inl e \<Longrightarrow> get_reranker construct self = Inl e"
  by (simp add: get_reranker_def)

lemma job_query_disabled:
  "\<not> enabled self \<Longrightarrow> job_query construct cq self question emb n flt = Inr (cq emb n flt, self)"
  by (simp add: job_query_def get_reranker_disabled candidate_k_def)

lemma rerank_results_disabled:
  "\<not> enabled self \<Longrightarrow> rerank_results construct self question results n = Inr (results, self)"
  by (simp add: rerank_results_def get_reranker_disabled)

lemma hits_answer_of: "hits (answer_of ranked i) = map snd ranked"
  by (simp add: hits_def answer_of_def unzip_ranked)

lemma length_answer_of: "length (documents (answer_of ranked i)) = length ranked"
  by (simp add: answer_of_def)

lemma job_query_reranked:
  assumes "enabled self"
    and "(case reranker self of Some p \<Rightarrow> Inr p | None \<Rightarrow> construct) = Inr predict"
    and "documents (cq emb (max n (rerank_top_k self)) flt) \<noteq> []"
    and "predict (map (\<lambda>doc. (question, doc)) (documents (cq emb (max n (rerank_top_k self)) flt))) = Inr scores"
  shows "job_query construct cq self question emb n flt =
     Inr (answer_of (ranked_top scores (cq emb (max n (rerank_top_k self)) flt) n) None,
          self\<lparr>reranker := Some predict\<rparr>)"
  using assms
  by (simp add: job_query_def get_reranker_enabled candidate_k_def score_def Let_def)

lemma job_query_no_candidates:
  assumes "enabled self"
    and "(case reranker self of Some p \<Rightarrow> Inr p | None \<Rightarrow> construct) = Inr predict"
    and "documents (cq emb (max n (rerank_top_k self)) flt) = []"
  shows "job_query construct cq self question emb n flt =
     Inr (cq emb (max n (rerank_top_k self)) flt, self\<lparr>reranker := Some predict\<rparr>)"
  using assms by (simp add: job_query_def get_reranker_enabled candidate_k_def)

lemma rerank_results_reranked:
  assumes "enabled self"
    and "(case reranker self of Some p \<Rightarrow> Inr p | None \<Rightarrow> construct) = Inr predict"
    and "documents results \<noteq> []"
    and "predict (map (\<lambda>doc. (question, doc)) (documents results)) = Inr scores"
  shows "rerank_results construct self question results n =
     Inr (answer_of (ranked_top scores results n)
            (Some (case ids results of None \<Rightarrow> [] | Some i \<Rightarrow> i)),
          self\<lparr>reranker := Some predict\<rparr>)"
  using assms
  by (simp add: rerank_results_def get_reranker_enabled score_def Let_def)





text \<open>
  Claim C4. With reranking enabled and a reranker that loads and scores, a search asks
  the store for \<open>max(n_results, rerank_top_k)\<close> candidates, scores the pairs of the question
  and each candidate text, sorts the candidates by descending score (candidates of equal
  score keep the store's order) and returns the first \<open>n_results\<close> of them, each text with
  its own metadata and distance; an empty candidate list is returned as it is. With
  reranking disabled it asks for exactly \<open>n_results\<close> candidates and returns the store's
  answer as it is, hence in the store's distance order.
\<close>

theorem rerank_fetch_sort_truncate:
  fixes construct :: "py_error + ('s::linorder) predict"
  shows
  "(\<not> enabled self \<longrightarrow>
      job_query construct cq self question emb n flt = Inr (cq emb n flt, self)
      \<and> candidate_k self n = n
      \<and> rerank_results construct self question results n = Inr (results, self))
   \<and> (enabled self
        \<and> (case reranker self of Some p \<Rightarrow> Inr p | None \<Rightarrow> construct) = Inr predict
        \<and> cands = cq emb (max n (rerank_top_k self)) flt
        \<and> documents cands \<noteq> []
        \<and> predict (map (\<lambda>doc. (question, doc)) (documents cands)) = Inr scores
      \<longrightarrow> (\<exists>r. job_query construct cq self question emb n flt = Inr (r, self\<lparr>reranker := Some predict\<rparr>)
             \<and> hits r = map snd (take n (sort_desc (zip scores (hits cands))))
             \<and> length (documents r) \<le> n))
   \<and> (enabled self
        \<and> (case reranker self of Some p \<Rightarrow> Inr p | None \<Rightarrow> construct) = Inr predict
        \<and> documents results \<noteq> []
        \<and> predict (map (\<lambda>doc. (question, doc)) (documents results)) = Inr scores
      \<longrightarrow> (\<exists>r. rerank_results construct self question results n = Inr (r, self\<lparr>reranker := Some predict\<rparr>)
             \<and> hits r = map snd (take n (sort_desc (zip scores (hits results))))
             \<and> length (documents r) \<le> n))
   \<and> (enabled self
        \<and> (case reranker self of Some p \<Rightarrow> Inr p | None \<Rightarrow> construct) = Inr predict
        \<and> documents (cq emb (max n (rerank_top_k self)) flt) = []
      \<longrightarrow> job_query construct cq self question emb n flt
            = Inr (cq emb (max n (rerank_top_k self)) flt, self\<lparr>reranker := Some predict\<rparr>))
   \<and> candidate_k (self\<lparr>enabled := True\<rparr>) n = max n (rerank_top_k self)
   \<and> sorted_wrt (\<lambda>a b. fst b \<le> fst a) (sort_desc (zip scores (hits cands)))
   \<and> mset (sort_desc (zip scores (hits cands))) = mset (zip scores (hits cands))
   \<and> filter (\<lambda>y. fst y = s) (sort_desc (zip scores (hits cands)))
        = filter (\<lambda>y. fst y = s) (zip scores (hits cands))"
proof -
  have d: "\<not> enabled self \<longrightarrow>
      job_query construct cq self question emb n flt = Inr (cq emb n flt, self)
      \<and> candidate_k self n = n
      \<and> rerank_results construct self question results n = Inr (results, self)"
    by (simp add: job_query_disabled rerank_results_disabled candidate_k_def)
  have j: "\<exists>r. job_query construct cq self question emb n flt = Inr (r, self\<lparr>reranker := Some predict\<rparr>)
             \<and> hits r = map snd (take n (sort_desc (zip scores (hits cands))))
             \<and> length (documents r) \<le> n"
    if "enabled self \<and> (case reranker self of Some p \<Rightarrow> Inr p | None \<Rightarrow> construct) = Inr predict
        \<and> cands = cq emb (max n (rerank_top_k self)) flt
        \<and> documents cands \<noteq> []
        \<and> predict (map (\<lambda>doc. (question, doc)) (documents cands)) = Inr scores"
  proof -
    from that have e: "enabled self"
      and p: "(case reranker self of Some p \<Rightarrow> Inr p | None \<Rightarrow> construct) = Inr predict"
      and c: "cands = cq emb (max n (rerank_top_k self)) flt"
      and ne: "documents cands \<noteq> []"
      and sc: "predict (map (\<lambda>doc. (question, doc)) (documents cands)) = Inr scores"
      by blast+
    have "job_query construct cq self question emb n flt =
       Inr (answer_of (ranked_top scores cands n) None, self\<lparr>reranker := Some predict\<rparr>)"
      unfolding c by (rule job_query_reranked [where cq = cq and emb = emb and flt = flt and n = n,
            OF e p ne [unfolded c] sc [unfolded c]])
    moreover have "hits (answer_of (ranked_top scores cands n) None)
        = map snd (take n (sort_desc (zip scores (hits cands))))"
      by (simp add: hits_answer_of ranked_top_def)
    moreover have "length (documents (answer_of (ranked_top scores cands n) None)) \<le> n"
      by (simp add: length_answer_of length_ranked_top)
    ultimately show ?thesis by blast
  qed
  have r: "\<exists>r. rerank_results construct self question results n = Inr (r, self\<lparr>reranker := Some predict\<rparr>)
             \<and> hits r = map snd (take n (sort_desc (zip scores (hits results))))
             \<and> length (documents r) \<le> n"
    if "enabled self \<and> (case reranker self of Some p \<Rightarrow> Inr p | None \<Rightarrow> construct) = Inr predict
        \<and> documents results \<noteq> []
        \<and> predict (map (\<lambda>doc. (question, doc)) (documents results)) = Inr scores"
  proof -
    let ?i = "Some (case ids results of None \<Rightarrow> [] | Some i \<Rightarrow> i)"
    from that have e: "enabled self"
      and p: "(case reranker self of Some p \<Rightarrow> Inr p | None \<Rightarrow> construct) = Inr predict"
      and ne: "documents results \<noteq> []"
      and sc: "predict (map (\<lambda>doc. (question, doc)) (documents results)) = Inr scores"
      by blast+
    have "rerank_results construct self question results n =
       Inr (answer_of (ranked_top scores results n) ?i, self\<lparr>reranker := Some predict\<rparr>)"
      by (rule rerank_results_reranked [OF e p ne sc])
    moreover have "hits (answer_of (ranked_top scores results n) ?i)
        = map snd (take n (sort_desc (zip scores (hits results))))"
      by (simp add: hits_answer_of ranked_top_def)
    moreover have "length (documents (answer_of (ranked_top scores results n) ?i)) \<le> n"
      by (simp add: length_answer_of length_ranked_top)
    ultimately show ?thesis by blast
  qed
  have k: "candidate_k (self\<lparr>enabled := True\<rparr>) n = max n (rerank_top_k self)"
    by (simp add: candidate_k_def)
  have e: "enabled self
        \<and> (case reranker self of Some p \<Rightarrow> Inr p | None \<Rightarrow> construct) = Inr predict
        \<and> documents (cq emb (max n (rerank_top_k self)) flt) = []
      \<longrightarrow> job_query construct cq self question emb n flt
            = Inr (cq emb (max n (rerank_top_k self)) flt, self\<lparr>reranker := Some predict\<rparr>)"
    by (simp add: job_query_no_candidates)
  show ?thesis
    using d j r e k sorted_sort_desc [of "zip scores (hits cands)"]
      mset_sort_desc [of "zip scores (hits cands)"]
      sort_desc_stable [of s "zip scores (hits cands)"]
    by blast
qed

text \<open>
  A job collection with four chunks, a reranker that scores a text by its length, two
  results asked for and three candidates fetched: the two longest candidates come back,
  in the store's order among themselves.
\<close>

theorem rerank_fetch_sort_truncate_witness:
  "\<exists>r. job_query (Inr (\<lambda>ps. Inr (map (\<lambda>p. length (snd p)) ps)))
          (\<lambda>e k f. \<lparr>documents = take k [''aa'', ''b'', ''cc'', ''d''], metadatas = take k [1, 2, 3, 4 :: nat],
                     distances = take k [10, 20, 30, 40 :: nat], ids = None\<rparr>)
          \<lparr>enabled = True, rerank_top_k = 3, reranker = None\<rparr> ''q'' () 2 ()
        = Inr (r, \<lparr>enabled = True, rerank_top_k = 3,
                   reranker = Some (\<lambda>ps. Inr (map (\<lambda>p. length (snd p)) ps))\<rparr>)
      \<and> hits r = [(''aa'', 1, 10), (''cc'', 3, 30)]
      \<and> length (documents r) \<le> 2"
proof -
  let ?P = "(\<lambda>ps. Inr (map (\<lambda>p. length (snd p)) ps)) :: nat predict"
  let ?cq = "\<lambda>(e :: unit) k (f :: unit). \<lparr>documents = take k [''aa'', ''b'', ''cc'', ''d''],
     metadatas = take k [1, 2, 3, 4 :: nat], distances = take k [10, 20, 30, 40 :: nat], ids = None\<rparr>"
  let ?self = "\<lparr>enabled = True, rerank_top_k = 3, reranker = None :: nat predict option\<rparr>"
  let ?cands = "\<lparr>documents = [''aa'', ''b'', ''cc''], metadatas = [1, 2, 3 :: nat],
     distances = [10, 20, 30 :: nat], ids = None\<rparr>"
  have m: "max 2 (rerank_top_k ?self) = Suc (Suc (Suc 0))" by simp
  have h: "enabled ?self
        \<and> (case reranker ?self of Some p \<Rightarrow> Inr p | None \<Rightarrow> Inr ?P) = Inr ?P
        \<and> ?cands = ?cq () (max 2 (rerank_top_k ?self)) ()
        \<and> documents ?cands \<noteq> []
        \<and> ?P (map (\<lambda>doc. (''q'', doc)) (documents ?cands)) = Inr [2, 1, 2]"
    unfolding m by simp
  have s: "map snd (take 2 (sort_desc (zip [2, 1, 2 :: nat] (hits ?cands))))
      = [(''aa'', 1, 10), (''cc'', 3, 30)]"
    by (simp add: hits_def numeral_2_eq_2)
  note t = rerank_fetch_sort_truncate [where self = ?self and construct = "Inr ?P" and predict = ?P
      and cq = ?cq and emb = "()" and flt = "()" and n = 2 and question = "''q''"
      and cands = ?cands and scores = "[2, 1, 2]" and results = ?cands and s = 0]
  have "\<exists>r. job_query (Inr ?P) ?cq ?self ''q'' () 2 () = Inr (r, ?self\<lparr>reranker := Some ?P\<rparr>)
      \<and> hits r = map snd (take 2 (sort_desc (zip [2, 1, 2 :: nat] (hits ?cands))))
      \<and> length (documents r) \<le> 2"
    by (rule mp [OF t [THEN conjunct2, THEN conjunct1] h])
  then show ?thesis unfolding s by simp
qed



text \<open>
  Claim C6 (amended). With reranking disabled by configuration a search returns the
  store's answer, ranked by vector distance, and never touches the reranker. With
  reranking enabled, a failure to build the reranker, or a failure of the cross-encoder
  while scoring a non-empty candidate list, is the outcome of \<open>JobCollectionRAG.query\<close>
  and of \<open>_rerank_results\<close>: no vector-only answer is substituted.
\<close>

theorem rerank_failure_propagates:
  fixes construct :: "py_error + ('s::linorder) predict"
  shows
  "(\<not> enabled self \<longrightarrow>
      job_query construct cq self question emb n flt = Inr (cq emb n flt, self)
      \<and> rerank_results construct self question results n = Inr (results, self))
   \<and> (enabled self \<and> reranker self = None \<and> construct = Inl e \<longrightarrow>
      job_query construct cq self question emb n flt = Inl e
      \<and> rerank_results construct self question results n = Inl e)
   \<and> (enabled self
        \<and> (case reranker self of Some p \<Rightarrow> Inr p | None \<Rightarrow> construct) = Inr predict
        \<and> documents (cq emb (max n (rerank_top_k self)) flt) \<noteq> []
        \<and> predict (map (\<lambda>doc. (question, doc)) (documents (cq emb (max n (rerank_top_k self)) flt))) = Inl e
      \<longrightarrow> job_query construct cq self question emb n flt = Inl e)
   \<and> (enabled self
        \<and> (case reranker self of Some p \<Rightarrow> Inr p | None \<Rightarrow> construct) = Inr predict
        \<and> documents results \<noteq> []
        \<and> predict (map (\<lambda>doc. (question, doc)) (documents results)) = Inl e
      \<longrightarrow> rerank_results construct self question results n = Inl e)"
proof -
  have a: "\<not> enabled self \<longrightarrow>
      job_query construct cq self question emb n flt = Inr (cq emb n flt, self)
      \<and> rerank_results construct self question results n = Inr (results, self)"
    by (simp add: job_query_disabled rerank_results_disabled)
  have b: "enabled self \<and> reranker self = None \<and> construct = Inl e \<longrightarrow>
      job_query construct cq self question emb n flt = Inl e
      \<and> rerank_results construct self question results n = Inl e"
    by (simp add: job_query_def rerank_results_def get_reranker_fails)
  have c: "enabled self
        \<and> (case reranker self of Some p \<Rightarrow> Inr p | None \<Rightarrow> construct) = Inr predict
        \<and> documents (cq emb (max n (rerank_top_k self)) flt) \<noteq> []
        \<and> predict (map (\<lambda>doc. (question, doc)) (documents (cq emb (max n (rerank_top_k self)) flt))) = Inl e
      \<longrightarrow> job_query construct cq self question emb n flt = Inl e"
    by (simp add: job_query_def get_reranker_enabled candidate_k_def score_def)
  have d: "enabled self
        \<and> (case reranker self of Some p \<Rightarrow> Inr p | None \<Rightarrow> construct) = Inr predict
        \<and> documents results \<noteq> []
        \<and> predict (map (\<lambda>doc. (question, doc)) (documents results)) = Inl e
      \<longrightarrow> rerank_results construct self question results n = Inl e"
    by (simp add: rerank_results_def get_reranker_enabled score_def)
  from a b c d show ?thesis by blast
qed

theorem rerank_failure_propagates_witness:
  "job_query (Inl ExternalError)
      (\<lambda>e k f. \<lparr>documents = [''Varieties of capitalism''], metadatas = [''thelen2012''],
                 distances = [1 :: nat], ids = None\<rparr>)
      \<lparr>enabled = False, rerank_top_k = 20, reranker = None :: nat predict option\<rparr>
      ''regional adjustment'' () 5 ()
    = Inr (\<lparr>documents = [''Varieties of capitalism''], metadatas = [''thelen2012''],
            distances = [1 :: nat], ids = None\<rparr>,
           \<lparr>enabled = False, rerank_top_k = 20, reranker = None\<rparr>)
   \<and> job_query (Inr (\<lambda>ps. Inl ExternalError))
      (\<lambda>e k f. \<lparr>documents = [''Varieties of capitalism''], metadatas = [''thelen2012''],
                 distances = [1 :: nat], ids = None\<rparr>)
      \<lparr>enabled = True, rerank_top_k = 20, reranker = None :: nat predict option\<rparr>
      ''regional adjustment'' () 5 ()
    = Inl ExternalError"
proof -
  let ?cq = "\<lambda>(e :: unit) (k :: nat) (f :: unit). \<lparr>documents = [''Varieties of capitalism''],
     metadatas = [''thelen2012''], distances = [1 :: nat], ids = None\<rparr>"
  let ?P = "(\<lambda>ps. Inl ExternalError) :: nat predict"
  let ?off = "\<lparr>enabled = False, rerank_top_k = 20, reranker = None :: nat predict option\<rparr>"
  let ?on = "\<lparr>enabled = True, rerank_top_k = 20, reranker = None :: nat predict option\<rparr>"
  have 1: "job_query (Inl ExternalError) ?cq ?off ''regional adjustment'' () 5 ()
      = Inr (?cq () 5 (), ?off)"
    using rerank_failure_propagates [where self = ?off and construct = "Inl ExternalError"
        and cq = ?cq and emb = "()" and flt = "()" and n = 5 and question = "''regional adjustment''"
        and results = "?cq () 5 ()" and predict = ?P and e = ExternalError]
    by simp
  have 2: "job_query (Inr ?P) ?cq ?on ''regional adjustment'' () 5 () = Inl ExternalError"
    using rerank_failure_propagates [where self = ?on and construct = "Inr ?P" and predict = ?P
        and cq = ?cq and emb = "()" and flt = "()" and n = 5 and question = "''regional adjustment''"
        and results = "?cq () 5 ()" and e = ExternalError]
    by simp
  from 1 2 show ?thesis by simp
qed

text \<open>
  Claim C6 as stated fails: with reranking enabled and a reranker that cannot be built,
  a job search over a non-empty collection ends in the error, not in a vector-ranked
  answer.
\<close>

theorem rerank_unavailable_fails_request:
  "job_query (Inl ExternalError)
      (\<lambda>e k f. \<lparr>documents = [''Varieties of capitalism''], metadatas = [''thelen2012''],
                 distances = [1 :: nat], ids = None\<rparr>)
      \<lparr>enabled = True, rerank_top_k = 20, reranker = None :: nat predict option\<rparr>
      ''regional adjustment'' () 5 ()
    = Inl ExternalError"
  by (simp add: job_query_def get_reranker_def)

section \<open>Properties of term expansion\<close>

text \<open>
  Claim C5. When expansion is disabled for the collection, or its term table is empty,
  \<open>expand\<close> returns exactly the one-element list of the original query.
\<close>

theorem expand_without_table:
  "\<not> expand_queries cfg \<or> table = [] \<Longrightarrow> expand cfg variant_of q table = [q]"
  by (auto simp: expand_def List.map_filter_simps)

theorem expand_without_table_witness:
  "expand \<lparr>expand_queries = False, max_expansions = 2\<rparr> (\<lambda>q g. Some (q @ '' '' @ fst g))
      ''ruhrgebiet transition'' [] = [''ruhrgebiet transition'']
   \<and> expand \<lparr>expand_queries = True, max_expansions = 2\<rparr> (\<lambda>q g. Some (q @ '' '' @ fst g))
      ''ruhrgebiet transition'' [] = [''ruhrgebiet transition'']
   \<and> expand \<lparr>expand_queries = False, max_expansions = 2\<rparr> (\<lambda>q g. Some (q @ '' '' @ fst g))
      ''ruhrgebiet transition'' [(''ruhrgebiet'', [''ruhr valley'', ''ruhr region''])]
      = [''ruhrgebiet transition'']"
proof -
  let ?v = "\<lambda>(q :: string) (g :: string \<times> string list). Some (q @ '' '' @ fst g)"
  have a: "expand \<lparr>expand_queries = False, max_expansions = 2\<rparr> ?v ''ruhrgebiet transition'' []
      = [''ruhrgebiet transition'']"
    by (rule expand_without_table) simp
  have b: "expand \<lparr>expand_queries = True, max_expansions = 2\<rparr> ?v ''ruhrgebiet transition'' []
      = [''ruhrgebiet transition'']"
    by (rule expand_without_table) simp
  have c: "expand \<lparr>expand_queries = False, max_expansions = 2\<rparr> ?v ''ruhrgebiet transition''
      [(''ruhrgebiet'', [''ruhr valley'', ''ruhr region''])] = [''ruhrgebiet transition'']"
    by (rule expand_without_table) simp
  from a b c show ?thesis by simp
qed

section \<open>Properties of the citation verifier\<close>

text \<open>
  Claim C8. When no document or more than one document matches the author substring and
  the year, or when the page index has no entry for the matched document and the page,
  \<open>verify\<close> reports \<open>exists = false\<close>; the report then names no citation and no page
  text, so nothing is put in the place of the claimed citation.
\<close>

theorem verify_reports_not_found:
  "length (matching_documents registry author yr) \<noteq> 1
   \<or> (\<exists>d. matching_documents registry author yr = [d] \<and> map_of pages (doc_id d, page) = None)
   \<Longrightarrow> verify registry pages similarity floor author yr page quote = not_found
       \<and> \<not> exists (verify registry pages similarity floor author yr page quote)"
proof (cases "matching_documents registry author yr")
  case Nil
  then show ?thesis by (simp add: verify_def not_found_def)
next
  case (Cons d ds)
  assume h: "length (matching_documents registry author yr) \<noteq> 1
   \<or> (\<exists>d. matching_documents registry author yr = [d] \<and> map_of pages (doc_id d, page) = None)"
  show ?thesis
  proof (cases ds)
    case Nil
    with Cons h have "map_of pages (doc_id d, page) = None" by auto
    with Cons Nil show ?thesis by (simp add: verify_def not_found_def)
  next
    case (Cons e es)
    with \<open>matching_documents registry author yr = d # ds\<close> show ?thesis
      by (simp add: verify_def not_found_def)
  qed
qed

theorem verify_reports_not_found_witness:
  "\<not> exists (verify
       [\<lparr>doc_id = ''d1'', doc_authors = ''Thelen, K.'', doc_year = 2012, doc_citation = ''Thelen (2012)''\<rparr>,
        \<lparr>doc_id = ''d2'', doc_authors = ''Hall, P.; Thelen, K.'', doc_year = 2009,
         doc_citation = ''Hall and Thelen (2009)''\<rparr>]
       [((''d1'', 1), ''Varieties of capitalism shape regional adjustment.''),
        ((''d1'', 2), ''Institutional complementarities matter.'')]
       (\<lambda>a b. 0) 80 ''Thelen'' 2012 99 None)
   \<and> verify
       [\<lparr>doc_id = ''d1'', doc_authors = ''Thelen, K.'', doc_year = 2012, doc_citation = ''Thelen (2012)''\<rparr>,
        \<lparr>doc_id = ''d2'', doc_authors = ''Hall, P.; Thelen, K.'', doc_year = 2009,
         doc_citation = ''Hall and Thelen (2009)''\<rparr>]
       [((''d1'', 1), ''Varieties of capitalism shape regional adjustment.''),
        ((''d1'', 2), ''Institutional complementarities matter.'')]
       (\<lambda>a b. 0) 80 ''Streeck'' 2009 1 None = not_found"
proof -
  let ?d1 = "\<lparr>doc_id = ''d1'', doc_authors = ''Thelen, K.'', doc_year = 2012, doc_citation = ''Thelen (2012)''\<rparr>"
  let ?d2 = "\<lparr>doc_id = ''d2'', doc_authors = ''Hall, P.; Thelen, K.'', doc_year = 2009,
         doc_citation = ''Hall and Thelen (2009)''\<rparr>"
  let ?R = "[?d1, ?d2]"
  let ?P = "[((''d1'', 1 :: nat), ''Varieties of capitalism shape regional adjustment.''),
        ((''d1'', 2), ''Institutional complementarities matter.'')]"
  have m1: "matching_documents ?R ''Thelen'' 2012 = [?d1]" by code_simp
  have p1: "map_of ?P (doc_id ?d1, 99) = None" by simp
  have m2: "matching_documents ?R ''Streeck'' 2009 = []" by code_simp
  have a: "\<not> exists (verify ?R ?P (\<lambda>a b. 0) 80 ''Thelen'' 2012 99 None)"
    using verify_reports_not_found [of ?R "''Thelen''" 2012 ?P 99 "\<lambda>a b. 0" 80 None] m1 p1 by blast
  have b: "verify ?R ?P (\<lambda>a b. 0) 80 ''Streeck'' 2009 1 None = not_found"
    using verify_reports_not_found [of ?R "''Streeck''" 2009 ?P 1 "\<lambda>a b. 0" 80 None] m2 by simp
  from a b show ?thesis by simp
qed

section \<open>Properties of the agentic synthesis controller\<close>

lemma step_decreases: "\<not> terminal s \<Longrightarrow> remaining cfg (step cfg outcome s) < remaining cfg s"
  by (cases "phase_of s")
     (auto simp: terminal_def step_def remaining_def evaluate_next_def)

lemma run_terminal: "terminal s \<Longrightarrow> run cfg outcome s = [s]"
  by (subst run.simps) simp

lemma run_step: "\<not> terminal s \<Longrightarrow> run cfg outcome s = s # run cfg outcome (step cfg outcome s)"
  by (subst run.simps) simp

lemma run_nonempty: "run cfg outcome s \<noteq> []"
  by (subst run.simps) simp

lemma run_last_terminal: "terminal (last (run cfg outcome s))"
proof (induction cfg outcome s rule: run.induct)
  case (1 cfg outcome s)
  show ?case
  proof (cases "terminal s")
    case True
    then show ?thesis by (simp add: run_terminal)
  next
    case False
    then show ?thesis using 1 by (simp add: run_step run_nonempty)
  qed
qed

lemma run_length: "length (run cfg outcome s) \<le> remaining cfg s + 1"
proof (induction cfg outcome s rule: run.induct)
  case (1 cfg outcome s)
  show ?case
  proof (cases "terminal s")
    case True
    then show ?thesis by (simp add: run_terminal)
  next
    case False
    then have "length (run cfg outcome s) = Suc (length (run cfg outcome (step cfg outcome s)))"
      by (simp add: run_step)
    also have "\<dots> \<le> Suc (remaining cfg (step cfg outcome s) + 1)"
      using 1 [OF False] by simp
    also have "\<dots> \<le> remaining cfg s + 1"
      using step_decreases [OF False, of cfg outcome] by simp
    finally show ?thesis .
  qed
qed

lemma step_retry_budget:
  "\<not> terminal s \<Longrightarrow>
   (max_retrieval_retries cfg - retrieval_retries (step cfg outcome s))
     + (if phase_of (step cfg outcome s) = RetryRetrieve then 1 else 0)
   \<le> max_retrieval_retries cfg - retrieval_retries s"
  by (cases "phase_of s")
     (auto simp: terminal_def step_def evaluate_next_def)

lemma retry_retrieve_bounded:
  "retry_retrieve_count (run cfg outcome s)
     \<le> (max_retrieval_retries cfg - retrieval_retries s)
        + (if phase_of s = RetryRetrieve then 1 else 0)"
proof (induction cfg outcome s rule: run.induct)
  case (1 cfg outcome s)
  show ?case
  proof (cases "terminal s")
    case True
    then show ?thesis by (auto simp: run_terminal retry_retrieve_count_def terminal_def)
  next
    case False
    have "retry_retrieve_count (run cfg outcome s)
        = (if phase_of s = RetryRetrieve then 1 else 0)
          + retry_retrieve_count (run cfg outcome (step cfg outcome s))"
      using False by (simp add: run_step retry_retrieve_count_def)
    also have "\<dots> \<le> (if phase_of s = RetryRetrieve then 1 else 0)
          + ((max_retrieval_retries cfg - retrieval_retries (step cfg outcome s))
             + (if phase_of (step cfg outcome s) = RetryRetrieve then 1 else 0))"
      using 1 [OF False] by simp
    also have "\<dots> \<le> (if phase_of s = RetryRetrieve then 1 else 0)
          + (max_retrieval_retries cfg - retrieval_retries s)"
      using step_retry_budget [OF False, of cfg outcome] by simp
    finally show ?thesis by simp
  qed
qed

lemma run_first_retry:
  assumes "\<not> grounding_sufficient (outcome 0 0)" and "0 < max_retrieval_retries cfg"
  shows "run cfg outcome initial_state =
     [initial_state, initial_state\<lparr>phase_of := Retrieve\<rparr>, initial_state\<lparr>phase_of := Generate\<rparr>,
      initial_state\<lparr>phase_of := Evaluate\<rparr>]
     @ run cfg outcome \<lparr>phase_of = RetryRetrieve, retrieval_retries = 1, regeneration_retries = 0\<rparr>"
proof -
  have 1: "run cfg outcome initial_state
      = initial_state # run cfg outcome (initial_state\<lparr>phase_of := Retrieve\<rparr>)"
    by (subst run_step) (simp_all add: terminal_def initial_state_def step_def)
  have 2: "run cfg outcome (initial_state\<lparr>phase_of := Retrieve\<rparr>)
      = initial_state\<lparr>phase_of := Retrieve\<rparr> # run cfg outcome (initial_state\<lparr>phase_of := Generate\<rparr>)"
    by (subst run_step) (simp_all add: terminal_def initial_state_def step_def)
  have 3: "run cfg outcome (initial_state\<lparr>phase_of := Generate\<rparr>)
      = initial_state\<lparr>phase_of := Generate\<rparr> # run cfg outcome (initial_state\<lparr>phase_of := Evaluate\<rparr>)"
    by (subst run_step) (simp_all add: terminal_def initial_state_def step_def)
  have 4: "run cfg outcome (initial_state\<lparr>phase_of := Evaluate\<rparr>)
      = initial_state\<lparr>phase_of := Evaluate\<rparr>
        # run cfg outcome \<lparr>phase_of = RetryRetrieve, retrieval_retries = 1, regeneration_retries = 0\<rparr>"
    using assms
    by (subst run_step) (simp_all add: terminal_def initial_state_def step_def evaluate_next_def)
  show ?thesis by (simp add: 1 2 3 4)
qed

lemma one_retry_exactly:
  assumes "\<not> grounding_sufficient (outcome 0 0)" and "max_retrieval_retries cfg = 1"
  shows "retry_retrieve_count (run cfg outcome initial_state) = 1"
proof -
  let ?s = "\<lparr>phase_of = RetryRetrieve, retrieval_retries = 1, regeneration_retries = 0\<rparr>"
  have pre: "retry_retrieve_count (run cfg outcome initial_state) = retry_retrieve_count (run cfg outcome ?s)"
    using run_first_retry [where outcome = outcome and cfg = cfg] assms
    by (simp add: retry_retrieve_count_def initial_state_def)
  have up: "retry_retrieve_count (run cfg outcome ?s) \<le> 1"
    using retry_retrieve_bounded [of cfg outcome ?s] assms(2) by simp
  have "run cfg outcome ?s = ?s # run cfg outcome (step cfg outcome ?s)"
    by (rule run_step) (simp add: terminal_def)
  then have lo: "1 \<le> retry_retrieve_count (run cfg outcome ?s)"
    by (simp add: retry_retrieve_count_def)
  from pre up lo show ?thesis by simp
qed

text \<open>
  Claim C2. From the initial state the controller reaches \<open>Done\<close> or \<open>Fail\<close> for every
  configuration and every sequence of evaluation outcomes, after visiting at most
  \<open>5 + 4 * max_retrieval_retries + 3 * max_regeneration_retries\<close> states. When the first
  retrieval is insufficient and the retrieval-retry budget is 1, the run passes through
  \<open>RetryRetrieve\<close> exactly once before its terminal state.
\<close>

theorem controller_terminates_within_budget:
  "terminal (last (run cfg outcome initial_state))
   \<and> length (run cfg outcome initial_state)
       \<le> 5 + 4 * max_retrieval_retries cfg + 3 * max_regeneration_retries cfg
   \<and> (max_retrieval_retries cfg = 1 \<and> \<not> grounding_sufficient (outcome 0 0)
       \<longrightarrow> retry_retrieve_count (run cfg outcome initial_state) = 1)"
proof -
  have "length (run cfg outcome initial_state) \<le> remaining cfg initial_state + 1"
    by (rule run_length)
  then have "length (run cfg outcome initial_state)
       \<le> 5 + 4 * max_retrieval_retries cfg + 3 * max_regeneration_retries cfg"
    by (simp add: remaining_def initial_state_def)
  then show ?thesis
    using run_last_terminal [of cfg outcome initial_state]
      one_retry_exactly [where outcome = outcome and cfg = cfg]
    by blast
qed

theorem controller_terminates_within_budget_witness:
  "map phase_of (run \<lparr>max_retrieval_retries = 1, max_regeneration_retries = 1\<rparr>
       (\<lambda>r g. \<lparr>grounding_sufficient = False, citations_accurate = True\<rparr>) initial_state)
     = [Classify, Retrieve, Generate, Evaluate, RetryRetrieve, Retrieve, Generate, Evaluate, Fail]
   \<and> retry_retrieve_count (run \<lparr>max_retrieval_retries = 1, max_regeneration_retries = 1\<rparr>
       (\<lambda>r g. \<lparr>grounding_sufficient = False, citations_accurate = True\<rparr>) initial_state) = 1
   \<and> terminal (last (run \<lparr>max_retrieval_retries = 1, max_regeneration_retries = 1\<rparr>
       (\<lambda>r g. \<lparr>grounding_sufficient = False, citations_accurate = True\<rparr>) initial_state))"
proof -
  let ?cfg = "\<lparr>max_retrieval_retries = 1, max_regeneration_retries = 1\<rparr>"
  let ?o = "\<lambda>(r :: nat) (g :: nat). \<lparr>grounding_sufficient = False, citations_accurate = True\<rparr>"
  have h: "max_retrieval_retries ?cfg = 1 \<and> \<not> grounding_sufficient (?o 0 0)" by simp
  have t: "map phase_of (run ?cfg ?o initial_state)
     = [Classify, Retrieve, Generate, Evaluate, RetryRetrieve, Retrieve, Generate, Evaluate, Fail]"
    by code_simp
  from controller_terminates_within_budget [of ?cfg ?o] h t show ?thesis by blast
qed

section \<open>Properties of the durable task tracker\<close>

lemma get_update_same:
  "update t i st pr msg = Inr t' \<Longrightarrow>
   get t' i = Some \<lparr>status = st, progress = pr, message = msg\<rparr>"
  by (auto simp: update_def get_def update_conv' split: option.splits if_splits)

lemma get_update_other:
  "update t i st pr msg = Inr t' \<Longrightarrow> j \<noteq> i \<Longrightarrow> get t' j = get t j"
  by (auto simp: update_def get_def update_conv' split: option.splits if_splits)

lemma update_monotone:
  "update t i st pr msg = Inr t' \<Longrightarrow> get t j = Some a \<Longrightarrow>
   \<exists>b. get t' j = Some b \<and> progress a \<le> progress b"
proof (cases "j = i")
  case True
  assume u: "update t i st pr msg = Inr t'" and g: "get t j = Some a"
  from u g True have "progress a \<le> pr"
    by (auto simp: update_def split: option.splits if_splits)
  with get_update_same [OF u] True show ?thesis by simp
next
  case False
  assume u: "update t i st pr msg = Inr t'" and g: "get t j = Some a"
  from get_update_other [OF u False] g show ?thesis by simp
qed

lemma apply_updates_monotone:
  "get t j = Some a \<Longrightarrow> \<exists>b. get (apply_updates t calls) j = Some b \<and> progress a \<le> progress b"
proof (induction calls arbitrary: t a)
  case Nil
  then show ?case by simp
next
  case (Cons c calls)
  obtain i st pr msg where c: "c = (i, st, pr, msg)" by (cases c) auto
  show ?case
  proof (cases "update t i st pr msg")
    case (Inl e)
    with Cons c show ?thesis by simp
  next
    case (Inr t')
    from update_monotone [OF Inr Cons.prems] obtain b where
      b: "get t' j = Some b" "progress a \<le> progress b" by blast
    from Cons.IH [OF b(1)] obtain d where
      "get (apply_updates t' calls) j = Some d" "progress b \<le> progress d" by blast
    with b(2) Inr c show ?thesis by auto
  qed
qed

lemma get_restart: "get (restart t) j = get t j"
  by (simp add: get_def restart_def)

lemma get_second_worker: "get (second_worker t) j = get t j"
  by (simp add: get_def second_worker_def)

text \<open>
  Claim C9. Across any sequence of update calls the progress stored for a task never
  decreases; a successful update is what \<open>get\<close> answers next, and a refused one changes
  nothing; \<open>get\<close> answers the same after a process restart and from a second worker
  process, since it reads the durable table only.
\<close>

theorem tracker_monotone_and_durable:
  "(get t j = Some a \<longrightarrow>
      (\<exists>b. get (apply_updates t calls) j = Some b \<and> progress a \<le> progress b))
   \<and> (update t i st pr msg = Inr t' \<longrightarrow>
        get t' i = Some \<lparr>status = st, progress = pr, message = msg\<rparr>
        \<and> get (restart t') i = Some \<lparr>status = st, progress = pr, message = msg\<rparr>
        \<and> get (second_worker t') i = Some \<lparr>status = st, progress = pr, message = msg\<rparr>)
   \<and> get (restart t) j = get t j
   \<and> get (second_worker t) j = get t j
   \<and> get (restart (apply_updates t calls)) j = get (apply_updates t calls) j"
  using apply_updates_monotone [of t j a calls] get_update_same [of t i st pr msg t']
  by (simp add: get_restart get_second_worker)

theorem tracker_monotone_and_durable_witness:
  "get (restart (apply_updates
         \<lparr>durable = [(1, \<lparr>status = Running, progress = 40, message = ''chunking''\<rparr>)],
          volatile = [(1, \<lparr>status = Queued, progress = 0, message = []\<rparr>)]\<rparr>
         [(1, Running, 10, ''late writer''), (1, Running, 70, ''embedding'')])) 1
     = Some \<lparr>status = Running, progress = 70, message = ''embedding''\<rparr>
   \<and> update \<lparr>durable = [(1, \<lparr>status = Running, progress = 40, message = ''chunking''\<rparr>)],
          volatile = [(1, \<lparr>status = Queued, progress = 0, message = []\<rparr>)]\<rparr>
        1 Running 10 ''late writer'' = Inl ProgressRegression
   \<and> (\<exists>b. get (apply_updates
         \<lparr>durable = [(1, \<lparr>status = Running, progress = 40, message = ''chunking''\<rparr>)],
          volatile = [(1, \<lparr>status = Queued, progress = 0, message = []\<rparr>)]\<rparr>
         [(1, Running, 10, ''late writer''), (1, Running, 70, ''embedding'')]) 1
        = Some b \<and> 40 \<le> progress b)
   \<and> get (second_worker
         \<lparr>durable = [(1, \<lparr>status = Running, progress = 40, message = ''chunking''\<rparr>)],
          volatile = [(1, \<lparr>status = Queued, progress = 0, message = []\<rparr>)]\<rparr>) 1
     = Some \<lparr>status = Running, progress = 40, message = ''chunking''\<rparr>"
proof -
  let ?t = "\<lparr>durable = [(1 :: nat, \<lparr>status = Running, progress = 40, message = ''chunking''\<rparr>)],
          volatile = [(1 :: nat, \<lparr>status = Queued, progress = 0, message = []\<rparr>)]\<rparr>"
  let ?calls = "[(1 :: nat, Running, 10 :: nat, ''late writer''), (1, Running, 70, ''embedding'')]"
  have g: "get ?t 1 = Some \<lparr>status = Running, progress = 40, message = ''chunking''\<rparr>"
    by (simp add: get_def)
  have r: "get (apply_updates ?t ?calls) 1 = Some \<lparr>status = Running, progress = 70, message = ''embedding''\<rparr>"
    by (simp add: update_def get_def)
  have u: "update ?t 1 Running 10 ''late writer'' = Inl ProgressRegression"
    by (simp add: update_def get_def)
  from tracker_monotone_and_durable [where t = ?t and j = 1 and calls = ?calls
      and a = "\<lparr>status = Running, progress = 40, message = ''chunking''\<rparr>" and i = 1 and st = Running
      and pr = 10 and msg = "''late writer''" and t' = ?t] g r u
  show ?thesis by simp
qed

end
